theory Spec2Isabelle
  imports Complex_Main "HOL-Library.Word" "HOL-Library.AList"
begin

section \<open>Data model (src/types/index.ts)\<close>

type_synonym bytes = "8 word list"

text \<open>A \<^verbatim>\<open>CryptoKey\<close> is opaque to the program; it is represented by its raw key material.\<close>

type_synonym CryptoKey = bytes

datatype status = Pending | Transferring | Paused | Completed | Failed

text \<open>
  A JavaScript \<^verbatim>\<open>number\<close> as far as the transfer code produces one: a finite value, or
  what a division by zero yields. HOL's \<open>x / 0 = 0\<close> is not what the program computes, so
  the division is written out.
\<close>

datatype number = Number real | Infinity | NaN

fun js_div :: "nat \<Rightarrow> nat \<Rightarrow> number" where
  "js_div a b =
     (if b \<noteq> 0 then Number (real a / real b) else if a = 0 then NaN else Infinity)"

fun js_times :: "number \<Rightarrow> real \<Rightarrow> number" where
  "js_times (Number x) c = Number (x * c)"
| "js_times Infinity c = (if c > 0 then Infinity else NaN)"
| "js_times NaN c = NaN"

text \<open>\<open>a \<le> b\<close> on JavaScript numbers; every comparison with \<^verbatim>\<open>NaN\<close> is false.\<close>

fun number_le :: "number \<Rightarrow> number \<Rightarrow> bool" where
  "number_le (Number x) (Number y) = (x \<le> y)"
| "number_le (Number x) Infinity = True"
| "number_le Infinity Infinity = True"
| "number_le _ _ = False"

text \<open>
  A \<^verbatim>\<open>File\<close>: its name, its \<^verbatim>\<open>size\<close> property and its contents. For a file picked by
  the user the size is the length of the contents; the receiving side builds a placeholder
  file whose \<^verbatim>\<open>size\<close> property is overridden with the announced size.
\<close>

record File =
  name :: string
  size' :: nat
  contents :: bytes

record FileTransfer =
  id' :: string
  file' :: File
  status :: status
  progress :: number
  speed :: real
  startTime :: int
  encryptionKey :: CryptoKey
  checksum :: string
  peerId :: string

section \<open>Wire messages\<close>

text \<open>
  The two objects handed to the send function. The ciphertext and the IV travel as base64
  text; the model keeps the bytes they encode.
  \<^item> \<open>TransferStart transferId fileName fileSize totalChunks encryptionKey checksum\<close>
  \<^item> \<open>FileChunk transferId chunkIndex encryptedData iv checksum isLastChunk\<close>
\<close>

datatype message =
    TransferStart string string nat nat string string
  | FileChunk string nat bytes bytes string bool

section \<open>The platform\<close>

text \<open>
  The Web Crypto calls behind \<^verbatim>\<open>EncryptionService\<close> are parameters of the model:
  \<^item> \<open>exportKey key\<close>: the exported key as text;
  \<^item> \<open>encrypt rnd data key\<close>: ciphertext and IV, \<open>rnd\<close> being the random draw for the IV;
  \<^item> \<open>decrypt encryptedData key iv\<close>: the plaintext, or \<open>None\<close> when the call rejects;
  \<^item> \<open>generateChecksum data\<close>: the digest in hexadecimal.
\<close>

record platform =
  exportKey :: "CryptoKey \<Rightarrow> string"
  encrypt :: "nat \<Rightarrow> bytes \<Rightarrow> CryptoKey \<Rightarrow> bytes \<times> bytes"
  decrypt :: "bytes \<Rightarrow> CryptoKey \<Rightarrow> bytes \<Rightarrow> bytes option"
  generateChecksum :: "bytes \<Rightarrow> string"

definition verifyChecksum :: "platform \<Rightarrow> bytes \<Rightarrow> string \<Rightarrow> bool" where
  "verifyChecksum pf data expectedChecksum =
     (let actualChecksum = generateChecksum pf data in actualChecksum = expectedChecksum)"

section \<open>The service state (FileTransferService)\<close>

datatype error = TransferNotFound | NoChunksFound | DecryptionError | TypeError | RangeError

text \<open>The reason strings handed to the error callback, one constructor per template.\<close>

datatype reason =
    FailedToSendMetadata
  | FailedToSendChunk nat
  | ChecksumFailed nat
  | FailedToProcess nat error

text \<open>
  A callback invocation: which registered callback bundle was called, with a snapshot of
  the transfer object it was given.
\<close>

datatype event =
    OnProgress nat FileTransfer
  | OnComplete nat FileTransfer
  | OnError nat FileTransfer reason

text \<open>
  Transfer objects are shared by reference between the registry, a running send loop and
  the callbacks, so they live in a store indexed by reference. A \<^verbatim>\<open>Map\<close> keeps insertion
  order, which the receiver's fallback search depends on: the three maps are association
  lists (\<^const>\<open>map_of\<close> is \<^verbatim>\<open>get\<close>, \<^const>\<open>AList.update\<close> is \<^verbatim>\<open>set\<close>, \<^const>\<open>AList.delete\<close>
  is \<^verbatim>\<open>delete\<close>). A chunk array is sparse: \<open>None\<close> is a hole. \<open>events\<close> and \<open>downloads\<close>
  record the callbacks invoked and the files handed to \<^verbatim>\<open>downloadFile\<close>, in order.
\<close>

record service =
  heap :: "nat \<Rightarrow> FileTransfer"
  activeTransfers :: "(string \<times> nat) list"
  transferCallbacks :: "(string \<times> nat) list"
  receivedChunks :: "(string \<times> bytes option list) list"
  events :: "event list"
  downloads :: "(bytes \<times> string) list"

definition CHUNK_SIZE :: nat where
  "CHUNK_SIZE = 4 * 1024"

text \<open>Assignment to fields of the object behind a reference.\<close>

definition modify :: "nat \<Rightarrow> (FileTransfer \<Rightarrow> FileTransfer) \<Rightarrow> service \<Rightarrow> service" where
  "modify r f s = s\<lparr>heap := (heap s)(r := f (heap s r))\<rparr>"

text \<open>\<^verbatim>\<open>this.transferCallbacks.get(transferId)?.cb(...)\<close>: nothing happens without an entry.\<close>

definition fire :: "string \<Rightarrow> (nat \<Rightarrow> event) \<Rightarrow> service \<Rightarrow> service" where
  "fire transferId ev s =
     (case map_of (transferCallbacks s) transferId of
        None \<Rightarrow> s
      | Some cb \<Rightarrow> s\<lparr>events := events s @ [ev cb]\<rparr>)"

definition registerIncomingTransfer :: "nat \<Rightarrow> nat \<Rightarrow> service \<Rightarrow> service" where
  "registerIncomingTransfer r cb s =
     s\<lparr>activeTransfers := AList.update (id' (heap s r)) r (activeTransfers s),
        transferCallbacks := AList.update (id' (heap s r)) cb (transferCallbacks s)\<rparr>"

definition pauseTransfer :: "string \<Rightarrow> service \<Rightarrow> service" where
  "pauseTransfer transferId s =
     (case map_of (activeTransfers s) transferId of
        Some r \<Rightarrow>
          if status (heap s r) = Transferring
          then modify r (\<lambda>t. t\<lparr>status := Paused\<rparr>) s else s
      | None \<Rightarrow> s)"

definition resumeTransfer :: "string \<Rightarrow> service \<Rightarrow> service" where
  "resumeTransfer transferId s =
     (case map_of (activeTransfers s) transferId of
        Some r \<Rightarrow>
          if status (heap s r) = Paused
          then modify r (\<lambda>t. t\<lparr>status := Transferring\<rparr>) s else s
      | None \<Rightarrow> s)"

definition cancelTransfer :: "string \<Rightarrow> service \<Rightarrow> service" where
  "cancelTransfer transferId s =
     (case map_of (activeTransfers s) transferId of
        Some r \<Rightarrow>
          (modify r (\<lambda>t. t\<lparr>status := Failed\<rparr>) s)
            \<lparr>activeTransfers := AList.delete transferId (activeTransfers s),
             transferCallbacks := AList.delete transferId (transferCallbacks s)\<rparr>
      | None \<Rightarrow> s)"

definition getTransfer :: "string \<Rightarrow> service \<Rightarrow> FileTransfer option" where
  "getTransfer transferId s = map_option (heap s) (map_of (activeTransfers s) transferId)"

text \<open>\<^verbatim>\<open>Blob.slice(start, end)\<close> on the file's contents.\<close>

definition readFileChunk :: "File \<Rightarrow> nat \<Rightarrow> nat \<Rightarrow> bytes" where
  "readFileChunk f start end' = take (end' - start) (drop start (contents f))"

text \<open>\<open>now\<close> is the value of \<^verbatim>\<open>Date.now()\<close> at the call.\<close>

definition calculateTransferSpeed :: "int \<Rightarrow> FileTransfer \<Rightarrow> nat \<Rightarrow> real" where
  "calculateTransferSpeed now transfer bytesTransferred =
     (let elapsedTime = real_of_int (now - startTime transfer) / 1000
      in if elapsedTime > 0 then real bytesTransferred / elapsedTime else 0)"

definition handleTransferError :: "string \<Rightarrow> reason \<Rightarrow> service \<Rightarrow> service" where
  "handleTransferError transferId err s =
     (case map_of (activeTransfers s) transferId of
        Some r \<Rightarrow>
          (let s1 = modify r (\<lambda>t. t\<lparr>status := Failed\<rparr>) s
           in fire transferId (\<lambda>cb. OnError cb (heap s1 r) err) s1)
      | None \<Rightarrow> s)"


text \<open>
  \<^verbatim>\<open>startFileTransfer\<close>; the generated id, the generated key and the reference of the new
  object are given, \<open>now\<close> is \<^verbatim>\<open>Date.now()\<close>, \<open>cb\<close> names the three callbacks.
\<close>

definition startFileTransfer ::
  "platform \<Rightarrow> int \<Rightarrow> string \<Rightarrow> CryptoKey \<Rightarrow> nat \<Rightarrow> File \<Rightarrow> string \<Rightarrow> nat \<Rightarrow> service \<Rightarrow> service" where
  "startFileTransfer pf now transferId key r f peer cb s =
     (let transfer = \<lparr>id' = transferId, file' = f, status = Pending, progress = Number 0,
            speed = 0, startTime = now, encryptionKey = key,
            checksum = generateChecksum pf (contents f), peerId = peer\<rparr>
      in s\<lparr>heap := (heap s)(r := transfer),
           activeTransfers := AList.update transferId r (activeTransfers s),
           transferCallbacks := AList.update transferId cb (transferCallbacks s)\<rparr>)"

section \<open>The sender: sendFileChunks\<close>

text \<open>
  \<^verbatim>\<open>sendFileChunks\<close> is suspended at every \<^verbatim>\<open>await\<close>; the pause and resume requests of the
  user are served meanwhile. A run is described by
  \<^item> \<open>others\<close>: the requests served while the call is suspended, slot \<open>0\<close> while the key is
    exported, slot \<open>i + 1\<close> while chunk \<open>i\<close> is read, encrypted and digested (after the loop's
    status check, before the chunk is sent);
  \<^item> \<open>draws\<close>: the random draw behind the IV of chunk \<open>i\<close>;
  \<^item> \<open>clock\<close>: \<^verbatim>\<open>Date.now()\<close> when the progress of chunk \<open>i\<close> is recorded.
\<close>

datatype request = Pause string | Resume string

fun serve1 :: "request \<Rightarrow> service \<Rightarrow> service" where
  "serve1 (Pause transferId) s = pauseTransfer transferId s"
| "serve1 (Resume transferId) s = resumeTransfer transferId s"

definition serve :: "request list \<Rightarrow> service \<Rightarrow> service" where
  "serve rs s = fold serve1 rs s"

record run =
  others :: "nat \<Rightarrow> request list"
  draws :: "nat \<Rightarrow> nat"
  clock :: "nat \<Rightarrow> int"

text \<open>
  The local constants of one call: \<^verbatim>\<open>transferId\<close>, \<^verbatim>\<open>transfer\<close> (a reference),
  \<^verbatim>\<open>file\<close>, \<^verbatim>\<open>encryptionKey\<close> and \<^verbatim>\<open>totalChunks\<close>.
\<close>

record frame =
  l_transferId :: string
  l_transfer :: nat
  l_file :: File
  l_encryptionKey :: CryptoKey
  l_totalChunks :: nat

text \<open>\<^verbatim>\<open>Math.ceil(file.size / CHUNK_SIZE)\<close> in \<^verbatim>\<open>sendFileChunks\<close>.\<close>

definition senderTotalChunks :: "File \<Rightarrow> nat" where
  "senderTotalChunks f = nat \<lceil>real (size' f) / real CHUNK_SIZE\<rceil>"

definition frameOf :: "string \<Rightarrow> nat \<Rightarrow> service \<Rightarrow> frame" where
  "frameOf transferId r s =
     \<lparr>l_transferId = transferId, l_transfer = r, l_file = file' (heap s r),
      l_encryptionKey = encryptionKey (heap s r),
      l_totalChunks = senderTotalChunks (file' (heap s r))\<rparr>"

definition transferStart :: "platform \<Rightarrow> frame \<Rightarrow> string \<Rightarrow> message" where
  "transferStart pf fr fileChecksum =
     TransferStart (l_transferId fr) (name (l_file fr)) (size' (l_file fr)) (l_totalChunks fr)
       (exportKey pf (l_encryptionKey fr)) fileChecksum"

definition chunkMessage :: "platform \<Rightarrow> run \<Rightarrow> frame \<Rightarrow> nat \<Rightarrow> message" where
  "chunkMessage pf w fr i =
     (let start = i * CHUNK_SIZE;
          end' = min (start + CHUNK_SIZE) (size' (l_file fr));
          chunkData = readFileChunk (l_file fr) start end';
          (encrypted, iv) = encrypt pf (draws w i) chunkData (l_encryptionKey fr);
          chunkChecksum = generateChecksum pf chunkData
      in FileChunk (l_transferId fr) i encrypted iv chunkChecksum
           (int i = int (l_totalChunks fr) - 1))"

text \<open>The three statements after a chunk was accepted: progress, speed, progress callback.\<close>

definition recordProgress :: "run \<Rightarrow> frame \<Rightarrow> nat \<Rightarrow> nat \<Rightarrow> service \<Rightarrow> service" where
  "recordProgress w fr i sentChunks s =
     (let r = l_transfer fr;
          s1 = modify r (\<lambda>t. t\<lparr>progress := js_times (js_div sentChunks (l_totalChunks fr)) 100\<rparr>) s;
          s2 = modify r (\<lambda>t. t\<lparr>speed :=
                 calculateTransferSpeed (clock w i) (heap s1 r) (sentChunks * CHUNK_SIZE)\<rparr>) s1
      in fire (l_transferId fr) (\<lambda>cb. OnProgress cb (heap s2 r)) s2)"

text \<open>
  The \<^verbatim>\<open>for\<close> loop. The result says whether the function returned from inside the loop
  (a rejected chunk), which messages were handed to the send function so far, and the state.
\<close>

function sendLoop ::
  "platform \<Rightarrow> run \<Rightarrow> (message \<Rightarrow> bool) \<Rightarrow> frame \<Rightarrow> nat \<Rightarrow> nat \<Rightarrow> message list \<Rightarrow> service
     \<Rightarrow> bool \<times> message list \<times> service" where
  "sendLoop pf w sendDataFunction fr i sentChunks out s =
     (if i < l_totalChunks fr then
        (if status (heap s (l_transfer fr)) = Paused then (False, out, s)
         else if \<not> sendDataFunction (chunkMessage pf w fr i)
         then (True, out @ [chunkMessage pf w fr i],
                 handleTransferError (l_transferId fr) (FailedToSendChunk i)
                   (serve (others w (Suc i)) s))
         else sendLoop pf w sendDataFunction fr (i + 1) (sentChunks + 1)
                (out @ [chunkMessage pf w fr i])
                (recordProgress w fr i (sentChunks + 1) (serve (others w (Suc i)) s)))
      else (False, out, s))"
  by pat_completeness auto
termination
  by (relation "measure (\<lambda>(pf, w, sendDataFunction, fr, i, sentChunks, out, s). l_totalChunks fr - i)")
     auto

text \<open>The statements after the loop.\<close>

definition finishSend :: "frame \<Rightarrow> service \<Rightarrow> service" where
  "finishSend fr s =
     (if status (heap s (l_transfer fr)) = Transferring
      then (let s1 = modify (l_transfer fr) (\<lambda>t. t\<lparr>status := Completed\<rparr>) s
            in fire (l_transferId fr) (\<lambda>cb. OnComplete cb (heap s1 (l_transfer fr))) s1)
      else s)"

text \<open>
  The result is the error thrown (if any), the messages handed to the send function, in
  order, and the state after the call.
\<close>

definition sendFileChunks ::
  "platform \<Rightarrow> run \<Rightarrow> string \<Rightarrow> (message \<Rightarrow> bool) \<Rightarrow> service
     \<Rightarrow> error option \<times> message list \<times> service" where
  "sendFileChunks pf w transferId sendDataFunction s =
     (case map_of (activeTransfers s) transferId of
        None \<Rightarrow> (Some TransferNotFound, [], s)
      | Some r \<Rightarrow>
          (let s0 = modify r (\<lambda>t. t\<lparr>status := Transferring\<rparr>) s;
               fr = frameOf transferId r s0;
               s1 = serve (others w 0) s0;
               metadata = transferStart pf fr (checksum (heap s1 r))
           in if \<not> sendDataFunction metadata
              then (None, [metadata],
                      handleTransferError transferId FailedToSendMetadata s1)
              else (case sendLoop pf w sendDataFunction fr 0 0 [metadata] s1 of
                      (True, out, s2) \<Rightarrow> (None, out, s2)
                    | (False, out, s2) \<Rightarrow> (None, out, finishSend fr s2))))"

section \<open>The receiver: handleIncomingChunk\<close>

text \<open>\<^verbatim>\<open>chunks[chunkIndex] = data\<close> on a JavaScript array: writing past the end leaves holes.\<close>

definition array_set :: "'a option list \<Rightarrow> nat \<Rightarrow> 'a \<Rightarrow> 'a option list" where
  "array_set xs i v =
     (if i < length xs then xs[i := Some v]
      else xs @ replicate (i - length xs) None @ [Some v])"

text \<open>\<^verbatim>\<open>chunks.reduce((size, chunk) => size + chunk.byteLength, 0)\<close>; \<^verbatim>\<open>reduce\<close> skips holes.\<close>

fun totalSize :: "bytes option list \<Rightarrow> nat" where
  "totalSize [] = 0"
| "totalSize (None # chunks) = totalSize chunks"
| "totalSize (Some chunk # chunks) = length chunk + totalSize chunks"

text \<open>
  \<^verbatim>\<open>combined.set(source, offset)\<close> on a typed array: a \<^verbatim>\<open>RangeError\<close> when the source does
  not fit.
\<close>

definition typed_set :: "bytes \<Rightarrow> bytes \<Rightarrow> nat \<Rightarrow> error + bytes" where
  "typed_set combined source offset =
     (if offset + length source > length combined then Inl RangeError
      else Inr (take offset combined @ source @ drop (offset + length source) combined))"

text \<open>
  The \<^verbatim>\<open>for ... of\<close> loop of \<^verbatim>\<open>reconstructFile\<close>. The array iterator yields \<^verbatim>\<open>undefined\<close> at
  a hole: \<^verbatim>\<open>new Uint8Array(undefined)\<close> is empty, and reading \<^verbatim>\<open>byteLength\<close> of \<^verbatim>\<open>undefined\<close>
  throws a \<^verbatim>\<open>TypeError\<close>.
\<close>

fun copyChunks :: "bytes option list \<Rightarrow> bytes \<Rightarrow> nat \<Rightarrow> error + bytes" where
  "copyChunks [] combined offset = Inr combined"
| "copyChunks (None # chunks) combined offset =
     (case typed_set combined [] offset of
        Inl e \<Rightarrow> Inl e
      | Inr combined' \<Rightarrow> Inl TypeError)"
| "copyChunks (Some chunk # chunks) combined offset =
     (case typed_set combined chunk offset of
        Inl e \<Rightarrow> Inl e
      | Inr combined' \<Rightarrow> copyChunks chunks combined' (offset + length chunk))"

definition reconstructFile :: "string \<Rightarrow> service \<Rightarrow> error + bytes" where
  "reconstructFile transferId s =
     (case map_of (receivedChunks s) transferId of
        None \<Rightarrow> Inl NoChunksFound
      | Some chunks \<Rightarrow> copyChunks chunks (replicate (totalSize chunks) 0) 0)"

definition downloadFile :: "bytes \<Rightarrow> string \<Rightarrow> service \<Rightarrow> service" where
  "downloadFile blob fileName s = s\<lparr>downloads := downloads s @ [(blob, fileName)]\<rparr>"

text \<open>\<^verbatim>\<open>Math.ceil(transfer.file.size / CHUNK_SIZE)\<close> in \<^verbatim>\<open>handleIncomingChunk\<close>.\<close>

definition receiverTotalChunks :: "File \<Rightarrow> nat" where
  "receiverTotalChunks f = nat \<lceil>real (size' f) / real CHUNK_SIZE\<rceil>"

text \<open>
  The lookup at the head of \<^verbatim>\<open>handleIncomingChunk\<close>, with the fallback for an unknown id:
  the first transfer, in insertion order, whose status is \<^verbatim>\<open>transferring\<close> is moved to the
  incoming id. \<open>None\<close> is the early return.
\<close>

definition resolveTransfer :: "string \<Rightarrow> service \<Rightarrow> (nat \<times> service) option" where
  "resolveTransfer transferId s =
     (case map_of (activeTransfers s) transferId of
        Some r \<Rightarrow> Some (r, s)
      | None \<Rightarrow>
          (case find (\<lambda>r. status (heap s r) = Transferring) (map snd (activeTransfers s)) of
             None \<Rightarrow> None
           | Some r \<Rightarrow>
               (let s1 = s\<lparr>activeTransfers := AList.delete (id' (heap s r)) (activeTransfers s)\<rparr>;
                    s2 = modify r (\<lambda>t. t\<lparr>id' := transferId\<rparr>) s1
                in Some (r, s2\<lparr>activeTransfers := AList.update transferId r (activeTransfers s2)\<rparr>))))"

text \<open>The body of the \<^verbatim>\<open>if (isLastChunk)\<close> statement; a thrown error goes to the \<^verbatim>\<open>catch\<close>.\<close>

definition lastChunk :: "string \<Rightarrow> nat \<Rightarrow> nat \<Rightarrow> service \<Rightarrow> service" where
  "lastChunk transferId r chunkIndex s =
     (case reconstructFile transferId s of
        Inl e \<Rightarrow> handleTransferError transferId (FailedToProcess chunkIndex e) s
      | Inr completeFile \<Rightarrow>
          (let s1 = downloadFile completeFile (name (file' (heap s r))) s;
               s2 = modify r (\<lambda>t. t\<lparr>status := Completed\<rparr>) s1;
               s3 = fire transferId (\<lambda>cb. OnComplete cb (heap s2 r)) s2
           in s3\<lparr>receivedChunks := AList.delete transferId (receivedChunks s3)\<rparr>))"

text \<open>
  The statements of the \<^verbatim>\<open>try\<close> block between the checksum test and the test of
  \<^verbatim>\<open>isLastChunk\<close>: the chunk is stored, progress and speed are set, the progress callback
  is invoked.
\<close>

definition storeChunk :: "int \<Rightarrow> nat \<Rightarrow> string \<Rightarrow> nat \<Rightarrow> bytes \<Rightarrow> service \<Rightarrow> service" where
  "storeChunk now r transferId chunkIndex decryptedData s =
     (let s1 = (if map_of (receivedChunks s) transferId = None
                then s\<lparr>receivedChunks := AList.update transferId [] (receivedChunks s)\<rparr>
                else s);
          chunks = the (map_of (receivedChunks s1) transferId);
          s2 = s1\<lparr>receivedChunks :=
                 AList.update transferId (array_set chunks chunkIndex decryptedData)
                   (receivedChunks s1)\<rparr>;
          totalChunks = receiverTotalChunks (file' (heap s2 r));
          s3 = modify r (\<lambda>t. t\<lparr>progress :=
                 js_times (js_div (chunkIndex + 1) totalChunks) 100\<rparr>) s2;
          s4 = modify r (\<lambda>t. t\<lparr>speed :=
                 calculateTransferSpeed now (heap s3 r) ((chunkIndex + 1) * CHUNK_SIZE)\<rparr>) s3
      in fire transferId (\<lambda>cb. OnProgress cb (heap s4 r)) s4)"

text \<open>The \<^verbatim>\<open>try\<close> block, for the transfer \<open>r\<close> the message was resolved to.\<close>

definition processChunk ::
  "platform \<Rightarrow> int \<Rightarrow> nat \<Rightarrow> string \<Rightarrow> nat \<Rightarrow> bytes \<Rightarrow> bytes \<Rightarrow> string \<Rightarrow> bool \<Rightarrow> service
     \<Rightarrow> service" where
  "processChunk pf now r transferId chunkIndex encryptedData iv chunkChecksum isLastChunk s =
     (case decrypt pf encryptedData (encryptionKey (heap s r)) iv of
        None \<Rightarrow> handleTransferError transferId (FailedToProcess chunkIndex DecryptionError) s
      | Some decryptedData \<Rightarrow>
          if \<not> verifyChecksum pf decryptedData chunkChecksum
          then handleTransferError transferId (ChecksumFailed chunkIndex) s
          else
            (let s5 = storeChunk now r transferId chunkIndex decryptedData s
             in if isLastChunk then lastChunk transferId r chunkIndex s5 else s5))"

text \<open>
  \<open>now\<close> is \<^verbatim>\<open>Date.now()\<close> when the speed is computed. The caller dispatches on the
  \<^verbatim>\<open>type\<close> field and passes \<^verbatim>\<open>file-chunk\<close> messages only.
\<close>

fun handleIncomingChunk :: "platform \<Rightarrow> int \<Rightarrow> message \<Rightarrow> service \<Rightarrow> service" where
  "handleIncomingChunk pf now (FileChunk transferId chunkIndex encryptedData iv chunkChecksum isLastChunk) s =
     (case resolveTransfer transferId s of
        None \<Rightarrow> s
      | Some (r, s1) \<Rightarrow>
          processChunk pf now r transferId chunkIndex encryptedData iv chunkChecksum isLastChunk s1)"
| "handleIncomingChunk pf now (TransferStart transferId fileName fileSize totalChunks key fileChecksum) s = s"


section \<open>Notions used in the statements\<close>

text \<open>No pause request among the requests of one slot.\<close>

fun noPause :: "request list \<Rightarrow> bool" where
  "noPause [] = True"
| "noPause (Pause transferId # rs) = False"
| "noPause (Resume transferId # rs) = noPause rs"

text \<open>The progress values reported to the progress callback, in order.\<close>

fun progressOf :: "event \<Rightarrow> number list" where
  "progressOf (OnProgress cb t) = [progress t]"
| "progressOf (OnComplete cb t) = []"
| "progressOf (OnError cb t why) = []"

definition progressValues :: "event list \<Rightarrow> number list" where
  "progressValues evs = concat (map progressOf evs)"

text \<open>The chunks of a buffer one after the other, in index order.\<close>

definition joinChunks :: "bytes option list \<Rightarrow> bytes" where
  "joinChunks chunks = concat (map (\<lambda>c. case c of None \<Rightarrow> [] | Some b \<Rightarrow> b) chunks)"


section \<open>Concrete inputs\<close>

text \<open>
  A platform to run the model on concrete inputs: the key is exported as its length in
  characters, encryption is the identity with an empty IV, and the digest of a chunk is as
  many characters as the chunk has bytes.
\<close>

definition toyPlatform :: platform where
  "toyPlatform =
     \<lparr>exportKey = (\<lambda>key. replicate (length key) CHR ''k''),
      encrypt = (\<lambda>rnd data key. (data, [])),
      decrypt = (\<lambda>encryptedData key iv. Some encryptedData),
      generateChecksum = (\<lambda>data. replicate (length data) CHR ''x'')\<rparr>"

definition blankTransfer :: FileTransfer where
  "blankTransfer =
     \<lparr>id' = [], file' = \<lparr>name = [], size' = 0, contents = []\<rparr>, status = Pending,
      progress = Number 0, speed = 0, startTime = 0, encryptionKey = [], checksum = [],
      peerId = []\<rparr>"

definition emptyService :: service where
  "emptyService =
     \<lparr>heap = (\<lambda>r. blankTransfer), activeTransfers = [], transferCallbacks = [],
      receivedChunks = [], events = [], downloads = []\<rparr>"

text \<open>A three-byte file, registered for sending as transfer \<open>''t1''\<close> with callbacks \<open>0\<close>.\<close>

definition smallFile :: File where
  "smallFile = \<lparr>name = ''a.txt'', size' = 3, contents = [1, 2, 3]\<rparr>"

definition senderState :: service where
  "senderState = startFileTransfer toyPlatform 0 ''t1'' [7] 0 smallFile ''peer'' 0 emptyService"

text \<open>The same transfer while it is transferring, and after a pause.\<close>

definition transferringState :: service where
  "transferringState = modify 0 (\<lambda>t. t\<lparr>status := Transferring\<rparr>) senderState"

definition pausedState :: service where
  "pausedState = pauseTransfer ''t1'' transferringState"

text \<open>
  The receiving side: a transfer of 10000 bytes (three chunks) announced by the peer and
  registered with callbacks \<open>0\<close>; nothing has been received yet.
\<close>

definition incomingTransfer :: FileTransfer where
  "incomingTransfer =
     \<lparr>id' = ''r1'', file' = \<lparr>name = ''b.bin'', size' = 10000, contents = []\<rparr>,
      status = Transferring, progress = Number 0, speed = 0, startTime = 1000,
      encryptionKey = [7], checksum = ''sum'', peerId = ''peer''\<rparr>"

definition receiverState :: service where
  "receiverState =
     registerIncomingTransfer 0 0 (emptyService\<lparr>heap := (heap emptyService)(0 := incomingTransfer)\<rparr>)"

text \<open>Two incoming transfers, \<open>''a''\<close> registered before \<open>''b''\<close>, both transferring.\<close>

definition twoTransfers :: service where
  "twoTransfers =
     registerIncomingTransfer 1 1
       (registerIncomingTransfer 0 0
          (emptyService\<lparr>heap := (heap emptyService)
             (0 := incomingTransfer\<lparr>id' := ''a''\<rparr>, 1 := incomingTransfer\<lparr>id' := ''b''\<rparr>)\<rparr>))"

text \<open>The receiving side after the first chunk of \<open>''r1''\<close> has arrived.\<close>

definition bufferedState :: service where
  "bufferedState =
     handleIncomingChunk toyPlatform 2000 (FileChunk ''r1'' 0 [1, 2, 3] [] ''xxx'' False)
       receiverState"

text \<open>The receiving side when the second chunk arrives before the first.\<close>

definition afterSecondChunk :: service where
  "afterSecondChunk =
     handleIncomingChunk toyPlatform 2000 (FileChunk ''r1'' 1 [4, 5] [] ''xx'' False)
       receiverState"

definition afterBothChunks :: service where
  "afterBothChunks =
     handleIncomingChunk toyPlatform 3000 (FileChunk ''r1'' 0 [1, 2, 3] [] ''xxx'' False)
       afterSecondChunk"

text \<open>An empty file, registered for sending as transfer \<open>''t0''\<close>.\<close>

definition emptyFile :: File where
  "emptyFile = \<lparr>name = ''empty'', size' = 0, contents = []\<rparr>"

definition emptySender :: service where
  "emptySender = startFileTransfer toyPlatform 0 ''t0'' [7] 0 emptyFile ''peer'' 0 emptyService"

text \<open>
  A run in which nobody interferes, and one in which the user pauses while the first chunk
  is being prepared.
\<close>

definition quietRun :: run where
  "quietRun = \<lparr>others = (\<lambda>k. []), draws = (\<lambda>i. 0), clock = (\<lambda>i. 1000)\<rparr>"

definition pausedRun :: run where
  "pausedRun =
     \<lparr>others = (\<lambda>k. if k = 1 then [Pause ''t1''] else []), draws = (\<lambda>i. 0),
      clock = (\<lambda>i. 1000)\<rparr>"

section \<open>Basic facts\<close>

lemma modify_simps [simp]:
  "heap (modify r f s) = (heap s)(r := f (heap s r))"
  "activeTransfers (modify r f s) = activeTransfers s"
  "transferCallbacks (modify r f s) = transferCallbacks s"
  "receivedChunks (modify r f s) = receivedChunks s"
  "events (modify r f s) = events s"
  "downloads (modify r f s) = downloads s"
  by (simp_all add: modify_def)

lemma fire_simps [simp]:
  "heap (fire t ev s) = heap s"
  "activeTransfers (fire t ev s) = activeTransfers s"
  "transferCallbacks (fire t ev s) = transferCallbacks s"
  "receivedChunks (fire t ev s) = receivedChunks s"
  "downloads (fire t ev s) = downloads s"
  by (simp_all add: fire_def split: option.split)

lemma fire_events:
  "events (fire t ev s) =
     (case map_of (transferCallbacks s) t of None \<Rightarrow> events s | Some cb \<Rightarrow> events s @ [ev cb])"
  by (simp add: fire_def split: option.split)

lemma serve1_frame [simp]:
  "activeTransfers (serve1 q s) = activeTransfers s"
  "transferCallbacks (serve1 q s) = transferCallbacks s"
  "receivedChunks (serve1 q s) = receivedChunks s"
  "events (serve1 q s) = events s"
  "downloads (serve1 q s) = downloads s"
  by (cases q; simp add: pauseTransfer_def resumeTransfer_def split: option.split)+

lemma serve_frame [simp]:
  "activeTransfers (serve rs s) = activeTransfers s"
  "transferCallbacks (serve rs s) = transferCallbacks s"
  "receivedChunks (serve rs s) = receivedChunks s"
  "events (serve rs s) = events s"
  "downloads (serve rs s) = downloads s"
  unfolding serve_def by (induction rs arbitrary: s; simp)+


lemma serve1_heap: "\<exists>st. heap (serve1 q s) r = (heap s r)\<lparr>status := st\<rparr>"
proof (cases q)
  case (Pause t)
  show ?thesis
  proof (cases "heap (serve1 q s) r = heap s r")
    case True
    then have "heap (serve1 q s) r = (heap s r)\<lparr>status := status (heap s r)\<rparr>" by simp
    then show ?thesis by blast
  next
    case False
    then have "heap (serve1 q s) r = (heap s r)\<lparr>status := Paused\<rparr>"
      using Pause by (auto simp: pauseTransfer_def split: option.splits if_splits)
    then show ?thesis by blast
  qed
next
  case (Resume t)
  show ?thesis
  proof (cases "heap (serve1 q s) r = heap s r")
    case True
    then have "heap (serve1 q s) r = (heap s r)\<lparr>status := status (heap s r)\<rparr>" by simp
    then show ?thesis by blast
  next
    case False
    then have "heap (serve1 q s) r = (heap s r)\<lparr>status := Transferring\<rparr>"
      using Resume by (auto simp: resumeTransfer_def split: option.splits if_splits)
    then show ?thesis by blast
  qed
qed

lemma serve_heap: "\<exists>st. heap (serve rs s) r = (heap s r)\<lparr>status := st\<rparr>"
  unfolding serve_def
proof (induction rs arbitrary: s)
  case Nil
  have "heap s r = (heap s r)\<lparr>status := status (heap s r)\<rparr>" by simp
  then show ?case by (simp only: fold.simps id_apply) blast
next
  case (Cons q rs)
  obtain st1 where a: "heap (serve1 q s) r = (heap s r)\<lparr>status := st1\<rparr>"
    using serve1_heap by blast
  obtain st2 where b: "heap (fold serve1 rs (serve1 q s)) r = (heap (serve1 q s) r)\<lparr>status := st2\<rparr>"
    using Cons.IH by blast
  have "heap (fold serve1 (q # rs) s) r = (heap s r)\<lparr>status := st2\<rparr>"
    by (simp add: a b)
  then show ?case by blast
qed

lemma serve_fields [simp]:
  "id' (heap (serve rs s) r) = id' (heap s r)"
  "file' (heap (serve rs s) r) = file' (heap s r)"
  "progress (heap (serve rs s) r) = progress (heap s r)"
  "speed (heap (serve rs s) r) = speed (heap s r)"
  "startTime (heap (serve rs s) r) = startTime (heap s r)"
  "encryptionKey (heap (serve rs s) r) = encryptionKey (heap s r)"
  "checksum (heap (serve rs s) r) = checksum (heap s r)"
  "peerId (heap (serve rs s) r) = peerId (heap s r)"
proof -
  obtain st where "heap (serve rs s) r = (heap s r)\<lparr>status := st\<rparr>"
    using serve_heap by blast
  then show
    "id' (heap (serve rs s) r) = id' (heap s r)"
    "file' (heap (serve rs s) r) = file' (heap s r)"
    "progress (heap (serve rs s) r) = progress (heap s r)"
    "speed (heap (serve rs s) r) = speed (heap s r)"
    "startTime (heap (serve rs s) r) = startTime (heap s r)"
    "encryptionKey (heap (serve rs s) r) = encryptionKey (heap s r)"
    "checksum (heap (serve rs s) r) = checksum (heap s r)"
    "peerId (heap (serve rs s) r) = peerId (heap s r)"
    by simp_all
qed


declare sendLoop.simps [simp del]

lemma serve_noPause:
  "noPause rs \<Longrightarrow> status (heap s r) = Transferring \<Longrightarrow> status (heap (serve rs s) r) = Transferring"
  unfolding serve_def
proof (induction rs arbitrary: s rule: noPause.induct)
  case 1
  then show ?case by simp
next
  case (2 t rs)
  then show ?case by simp
next
  case (3 t rs)
  have "status (heap (resumeTransfer t s) r) = Transferring"
    using 3(3) by (simp add: resumeTransfer_def split: option.split)
  with 3 show ?case by simp
qed

lemma recordProgress_frame [simp]:
  "activeTransfers (recordProgress w fr i sc s) = activeTransfers s"
  "transferCallbacks (recordProgress w fr i sc s) = transferCallbacks s"
  "receivedChunks (recordProgress w fr i sc s) = receivedChunks s"
  "downloads (recordProgress w fr i sc s) = downloads s"
  "status (heap (recordProgress w fr i sc s) r) = status (heap s r)"
  "progress (heap (recordProgress w fr i sc s) (l_transfer fr)) =
     js_times (js_div sc (l_totalChunks fr)) 100"
  by (simp_all add: recordProgress_def Let_def)

lemma recordProgress_events:
  "events (recordProgress w fr i sc s) =
     (case map_of (transferCallbacks s) (l_transferId fr) of
        None \<Rightarrow> events s
      | Some cb \<Rightarrow> events s @ [OnProgress cb (heap (recordProgress w fr i sc s) (l_transfer fr))])"
  by (simp add: recordProgress_def Let_def fire_events split: option.split)

lemma handleTransferError_frame [simp]:
  "activeTransfers (handleTransferError t why s) = activeTransfers s"
  "transferCallbacks (handleTransferError t why s) = transferCallbacks s"
  "receivedChunks (handleTransferError t why s) = receivedChunks s"
  "downloads (handleTransferError t why s) = downloads s"
  by (simp_all add: handleTransferError_def Let_def split: option.split)

lemma handleTransferError_registered:
  assumes "map_of (activeTransfers s) t = Some r"
  shows "status (heap (handleTransferError t why s) r) = Failed"
    and "events (handleTransferError t why s) =
           (case map_of (transferCallbacks s) t of
              None \<Rightarrow> events s
            | Some cb \<Rightarrow> events s @ [OnError cb (heap (handleTransferError t why s) r) why])"
  using assms by (simp_all add: handleTransferError_def Let_def fire_events split: option.split)

lemma sendLoop_paused:
  "status (heap s (l_transfer fr)) = Paused \<Longrightarrow> sendLoop pf w send fr i sc out s = (False, out, s)"
  by (subst sendLoop.simps) simp

lemma sendLoop_done:
  "\<not> i < l_totalChunks fr \<Longrightarrow> sendLoop pf w send fr i sc out s = (False, out, s)"
  by (subst sendLoop.simps) simp

lemma sendLoop_reject:
  "i < l_totalChunks fr \<Longrightarrow> status (heap s (l_transfer fr)) \<noteq> Paused \<Longrightarrow>
   \<not> send (chunkMessage pf w fr i) \<Longrightarrow>
   sendLoop pf w send fr i sc out s =
     (True, out @ [chunkMessage pf w fr i],
      handleTransferError (l_transferId fr) (FailedToSendChunk i) (serve (others w (Suc i)) s))"
  by (subst sendLoop.simps) simp

lemma sendLoop_step:
  "i < l_totalChunks fr \<Longrightarrow> status (heap s (l_transfer fr)) \<noteq> Paused \<Longrightarrow>
   send (chunkMessage pf w fr i) \<Longrightarrow>
   sendLoop pf w send fr i sc out s =
     sendLoop pf w send fr (Suc i) (Suc sc) (out @ [chunkMessage pf w fr i])
       (recordProgress w fr i (Suc sc) (serve (others w (Suc i)) s))"
  by (subst sendLoop.simps) simp



text \<open>An undisturbed stretch of the loop: chunks i .. i+d-1 accepted, no pause served.\<close>

lemma sendLoop_run:
  assumes acc: "\<forall>j. send (chunkMessage pf w fr j)"
  shows "(\<forall>j<d. noPause (others w (Suc (i + j)))) \<Longrightarrow>
         status (heap s (l_transfer fr)) = Transferring \<Longrightarrow> i + d \<le> l_totalChunks fr \<Longrightarrow>
         \<exists>s'. sendLoop pf w send fr i sc out s =
                sendLoop pf w send fr (i + d) (sc + d) (out @ map (chunkMessage pf w fr) [i..<i + d]) s'
            \<and> status (heap s' (l_transfer fr)) = Transferring
            \<and> activeTransfers s' = activeTransfers s
            \<and> transferCallbacks s' = transferCallbacks s
            \<and> (\<exists>evs. events s' = events s @ evs)"
proof (induction d)
  case 0
  then have "sendLoop pf w send fr i sc out s =
        sendLoop pf w send fr (i + 0) (sc + 0) (out @ map (chunkMessage pf w fr) [i..<i + 0]) s
      \<and> status (heap s (l_transfer fr)) = Transferring
      \<and> activeTransfers s = activeTransfers s
      \<and> transferCallbacks s = transferCallbacks s
      \<and> (\<exists>evs. events s = events s @ evs)"
    by simp
  then show ?case by (rule exI)
next
  case (Suc d)
  from Suc.prems have "\<forall>j<d. noPause (others w (Suc (i + j)))" "i + d \<le> l_totalChunks fr"
    by simp_all
  with Suc.IH Suc.prems(2) obtain s1 where s1:
    "sendLoop pf w send fr i sc out s =
       sendLoop pf w send fr (i + d) (sc + d) (out @ map (chunkMessage pf w fr) [i..<i + d]) s1"
    "status (heap s1 (l_transfer fr)) = Transferring"
    "activeTransfers s1 = activeTransfers s"
    "transferCallbacks s1 = transferCallbacks s"
    "\<exists>evs. events s1 = events s @ evs"
    by blast
  let ?s2 = "serve (others w (Suc (i + d))) s1"
  let ?s3 = "recordProgress w fr (i + d) (Suc (sc + d)) ?s2"
  have lt: "i + d < l_totalChunks fr" using Suc.prems(3) by simp
  have np: "noPause (others w (Suc (i + d)))" using Suc.prems(1) by simp
  have st2: "status (heap ?s2 (l_transfer fr)) = Transferring"
    using np s1(2) by (rule serve_noPause)
  have step: "sendLoop pf w send fr (i + d) (sc + d) (out @ map (chunkMessage pf w fr) [i..<i + d]) s1 =
        sendLoop pf w send fr (Suc (i + d)) (Suc (sc + d))
          ((out @ map (chunkMessage pf w fr) [i..<i + d]) @ [chunkMessage pf w fr (i + d)]) ?s3"
    using lt s1(2) acc by (intro sendLoop_step) simp_all
  have "sendLoop pf w send fr i sc out s =
        sendLoop pf w send fr (i + Suc d) (sc + Suc d)
          (out @ map (chunkMessage pf w fr) [i..<i + Suc d]) ?s3"
    using s1(1) step by simp
  moreover have "status (heap ?s3 (l_transfer fr)) = Transferring" using st2 by simp
  moreover have "activeTransfers ?s3 = activeTransfers s" using s1(3) by simp
  moreover have "transferCallbacks ?s3 = transferCallbacks s" using s1(4) by simp
  moreover have "\<exists>evs. events ?s3 = events s @ evs"
  proof -
    from s1(5) obtain evs where "events s1 = events s @ evs" by blast
    then show ?thesis by (simp add: recordProgress_events split: option.split)
  qed
  ultimately show ?case by blast
qed


lemma frameOf_simps [simp]:
  "l_transferId (frameOf transferId r s) = transferId"
  "l_transfer (frameOf transferId r s) = r"
  "l_file (frameOf transferId r s) = file' (heap s r)"
  "l_encryptionKey (frameOf transferId r s) = encryptionKey (heap s r)"
  "l_totalChunks (frameOf transferId r s) = senderTotalChunks (file' (heap s r))"
  by (simp_all add: frameOf_def)

lemma frameOf_status [simp]:
  "frameOf transferId r (modify r (\<lambda>t. t\<lparr>status := st\<rparr>) s) = frameOf transferId r s"
  by (simp add: frameOf_def)

lemma finishSend_paused:
  "status (heap s (l_transfer fr)) = Paused \<Longrightarrow> finishSend fr s = s"
  by (simp add: finishSend_def)




lemma chunkMessage_inj: "chunkMessage pf w fr i = chunkMessage pf w fr j \<Longrightarrow> i = j"
  by (simp add: chunkMessage_def Let_def split: prod.splits)

lemma sendFileChunks_unknown:
  "map_of (activeTransfers s) transferId = None \<Longrightarrow>
   sendFileChunks pf w transferId send s = (Some TransferNotFound, [], s)"
  by (simp add: sendFileChunks_def)

text \<open>The call, unfolded for a registered transfer.\<close>

lemma sendFileChunks_registered:
  assumes "map_of (activeTransfers s) transferId = Some r"
      and "fr = frameOf transferId r s"
      and "s1 = serve (others w 0) (modify r (\<lambda>t. t\<lparr>status := Transferring\<rparr>) s)"
      and "metadata = transferStart pf fr (checksum (heap s r))"
  shows "sendFileChunks pf w transferId send s =
     (if \<not> send metadata
      then (None, [metadata], handleTransferError transferId FailedToSendMetadata s1)
      else (case sendLoop pf w send fr 0 0 [metadata] s1 of
              (True, out, s2) \<Rightarrow> (None, out, s2)
            | (False, out, s2) \<Rightarrow> (None, out, finishSend fr s2)))"
  using assms(1) unfolding assms(2,3,4) sendFileChunks_def Let_def frameOf_status by simp




lemma serve_one_pause:
  "map_of (activeTransfers s) transferId = Some r \<Longrightarrow> status (heap s r) = Transferring \<Longrightarrow>
   status (heap (serve [Pause transferId] s) r) = Paused"
  by (simp add: serve_def pauseTransfer_def)

text \<open>A pause served in slot k: the chunks before k are sent, then the loop is left.\<close>

lemma sendFileChunks_paused_at:
  assumes reg: "map_of (activeTransfers s) transferId = Some r"
      and acc: "\<forall>m. send m"
      and quiet: "\<forall>j<k. noPause (others w j)"
      and pause: "others w k = [Pause transferId]"
      and k: "k \<le> senderTotalChunks (file' (heap s r))"
      and fr: "fr = frameOf transferId r s"
  shows "\<exists>s'. sendFileChunks pf w transferId send s =
           (None, transferStart pf fr (checksum (heap s r)) # map (chunkMessage pf w fr) [0..<k], s')
         \<and> status (heap s' r) = Paused"
proof -
  let ?s0 = "modify r (\<lambda>t. t\<lparr>status := Transferring\<rparr>) s"
  let ?s1 = "serve (others w 0) ?s0"
  let ?md = "transferStart pf fr (checksum (heap s r))"
  have unfold: "sendFileChunks pf w transferId send s =
      (case sendLoop pf w send fr 0 0 [?md] ?s1 of
         (True, out, s2) \<Rightarrow> (None, out, s2)
       | (False, out, s2) \<Rightarrow> (None, out, finishSend fr s2))"
    using acc by (simp add: sendFileChunks_registered[OF reg fr refl refl])
  have r: "l_transfer fr = r" and t: "l_transferId fr = transferId"
    and tot: "l_totalChunks fr = senderTotalChunks (file' (heap s r))"
    by (simp_all add: fr)
  have st0: "status (heap ?s0 r) = Transferring" by simp
  have reg0: "map_of (activeTransfers ?s0) transferId = Some r" using reg by simp
  show ?thesis
  proof (cases k)
    case 0
    have "status (heap ?s1 r) = Paused"
      using pause 0 serve_one_pause[OF reg0 st0] by simp
    then have p: "status (heap ?s1 (l_transfer fr)) = Paused" by (simp add: r)
    have "sendFileChunks pf w transferId send s = (None, [?md], ?s1)"
      by (simp add: unfold sendLoop_paused[OF p] finishSend_paused[OF p])
    with 0 \<open>status (heap ?s1 r) = Paused\<close> show ?thesis by simp
  next
    case (Suc d)
    have np0: "noPause (others w 0)" using quiet Suc by simp
    have st1: "status (heap ?s1 (l_transfer fr)) = Transferring"
      unfolding r using np0 st0 by (rule serve_noPause)
    have nps: "\<forall>j<d. noPause (others w (Suc (0 + j)))" using quiet Suc by simp
    have le: "0 + d \<le> l_totalChunks fr" using k Suc tot by simp
    from sendLoop_run[where send = send and pf = pf and w = w and fr = fr and d = d and i = 0
        and s = ?s1 and sc = 0 and out = "[?md]", OF _ nps st1 le] acc
    obtain s2 where s2:
      "sendLoop pf w send fr 0 0 [?md] ?s1 =
         sendLoop pf w send fr d d ([?md] @ map (chunkMessage pf w fr) [0..<d]) s2"
      "status (heap s2 (l_transfer fr)) = Transferring"
      "activeTransfers s2 = activeTransfers ?s1"
      by auto
    let ?s3 = "recordProgress w fr d (Suc d) (serve (others w (Suc d)) s2)"
    have lt: "d < l_totalChunks fr" using k Suc tot by simp
    have ne: "status (heap s2 (l_transfer fr)) \<noteq> Paused" using s2(2) by simp
    have step: "sendLoop pf w send fr d d ([?md] @ map (chunkMessage pf w fr) [0..<d]) s2 =
        sendLoop pf w send fr (Suc d) (Suc d)
          (([?md] @ map (chunkMessage pf w fr) [0..<d]) @ [chunkMessage pf w fr d]) ?s3"
      using lt ne acc by (intro sendLoop_step) simp_all
    have reg2: "map_of (activeTransfers s2) transferId = Some r" using s2(3) reg by simp
    have "status (heap (serve (others w (Suc d)) s2) r) = Paused"
      using pause Suc serve_one_pause[OF reg2] s2(2) r by simp
    then have p3: "status (heap ?s3 (l_transfer fr)) = Paused" by (simp add: r)
    have "sendLoop pf w send fr 0 0 [?md] ?s1 =
        (False, ?md # map (chunkMessage pf w fr) [0..<Suc d], ?s3)"
      using s2(1) step sendLoop_paused[OF p3] by simp
    then have "sendFileChunks pf w transferId send s =
        (None, ?md # map (chunkMessage pf w fr) [0..<Suc d], ?s3)"
      by (simp add: unfold finishSend_paused[OF p3])
    with Suc p3 r show ?thesis by simp
  qed
qed




lemma ceil_div_nat:
  assumes "0 < b"
  shows "nat \<lceil>real n / real b\<rceil> = (n + b - 1) div b"
proof -
  define k where "k = (n + b - 1) div b"
  have a: "k * b \<le> n + b - 1"
    unfolding k_def by (rule div_times_less_eq_dividend)
  have b: "n + b - 1 < b + k * b"
    unfolding k_def using assms by (rule dividend_less_div_times)
  have lo: "k * b < n + b" using a assms by linarith
  have hi: "n \<le> k * b" using b assms by linarith
  have "\<lceil>real n / real b\<rceil> = int k"
  proof (rule ceiling_unique)
    have "real (k * b) < real (n + b)" using lo by (simp only: of_nat_less_iff)
    then have "(real k - 1) * real b < real n" by (simp add: algebra_simps)
    then show "of_int (int k) - 1 < real n / real b"
      using assms by (simp add: pos_less_divide_eq)
  next
    have "real n \<le> real (k * b)" using hi by (simp only: of_nat_le_iff)
    then show "real n / real b \<le> of_int (int k)"
      using assms by (simp add: pos_divide_le_eq)
  qed
  then show ?thesis by (simp add: k_def)
qed

lemma ceil_chunks: "nat \<lceil>real n / real CHUNK_SIZE\<rceil> = (n + CHUNK_SIZE - 1) div CHUNK_SIZE"
  by (rule ceil_div_nat) (simp add: CHUNK_SIZE_def)

lemma smallFile_simps:
  "name smallFile = ''a.txt''" "size' smallFile = 3" "contents smallFile = [1, 2, 3]"
  by (simp_all add: smallFile_def)

lemma senderState_simps:
  "activeTransfers senderState = [(''t1'', 0)]"
  "transferCallbacks senderState = [(''t1'', 0)]"
  "events senderState = []"
  "heap senderState 0 =
     \<lparr>id' = ''t1'', file' = smallFile, status = Pending, progress = Number 0, speed = 0,
      startTime = 0, encryptionKey = [7], checksum = ''xxx'', peerId = ''peer''\<rparr>"
  by (simp_all add: senderState_def startFileTransfer_def emptyService_def toyPlatform_def
        smallFile_simps Let_def)

section \<open>The sender sends the chunks in order\<close>




section \<open>An unknown transfer id\<close>

text \<open>
  Claim C10. \<^verbatim>\<open>sendFileChunks\<close> with a transfer id that is not in the registry throws
  \<^verbatim>\<open>Transfer not found\<close>: no message is handed to the send function and the state (every
  status, the callbacks invoked so far) is what it was.
\<close>

theorem sendFileChunks_unknown_transfer:
  assumes "map_of (activeTransfers s) transferId = None"
  shows "sendFileChunks pf w transferId send s = (Some TransferNotFound, [], s)"
  using assms by (rule sendFileChunks_unknown)

theorem sendFileChunks_unknown_transfer_witness:
  "map_of (activeTransfers senderState) ''t2'' = None \<and>
   sendFileChunks toyPlatform quietRun ''t2'' (\<lambda>m. True) senderState =
     (Some TransferNotFound, [], senderState)"
  using sendFileChunks_unknown_transfer[of senderState "''t2''" toyPlatform quietRun "\<lambda>m. True"]
  by (simp add: senderState_simps)

section \<open>A rejected send\<close>





section \<open>Pause and resume\<close>

lemma pauseTransfer_frame [simp]:
  "activeTransfers (pauseTransfer t s) = activeTransfers s"
  "transferCallbacks (pauseTransfer t s) = transferCallbacks s"
  "receivedChunks (pauseTransfer t s) = receivedChunks s"
  "events (pauseTransfer t s) = events s"
  "downloads (pauseTransfer t s) = downloads s"
  by (simp_all add: pauseTransfer_def split: option.split)

lemma resumeTransfer_frame [simp]:
  "activeTransfers (resumeTransfer t s) = activeTransfers s"
  "transferCallbacks (resumeTransfer t s) = transferCallbacks s"
  "receivedChunks (resumeTransfer t s) = receivedChunks s"
  "events (resumeTransfer t s) = events s"
  "downloads (resumeTransfer t s) = downloads s"
  by (simp_all add: resumeTransfer_def split: option.split)

text \<open>
  Claim C7. \<^verbatim>\<open>pauseTransfer\<close> changes a registered transfer that is \<^verbatim>\<open>transferring\<close> to
  \<^verbatim>\<open>paused\<close> and \<^verbatim>\<open>resumeTransfer\<close> changes one that is \<^verbatim>\<open>paused\<close> to \<^verbatim>\<open>transferring\<close>; in
  every other case (another status, terminal ones included, or an unknown id) the call
  leaves the whole state as it was, and neither call ever touches the registry. The send
  loop leaves at its status check when the transfer is paused, sending nothing and
  changing nothing. A pause served while chunk \<open>k - 1\<close> is being prepared (slot \<open>k\<close>, no
  pause before) does not interrupt that chunk: the messages sent are the
  \<^verbatim>\<open>transfer-start\<close> message and exactly the chunks \<open>0, \<dots>, k - 1\<close>, and the transfer is
  left \<^verbatim>\<open>paused\<close>.
\<close>

theorem pause_resume_toggle:
  "(map_of (activeTransfers s) transferId = Some r \<and> status (heap s r) = Transferring \<longrightarrow>
      pauseTransfer transferId s = modify r (\<lambda>t. t\<lparr>status := Paused\<rparr>) s \<and>
      status (heap (pauseTransfer transferId s) r) = Paused) \<and>
   ((\<forall>r'. map_of (activeTransfers s) transferId = Some r' \<longrightarrow> status (heap s r') \<noteq> Transferring) \<longrightarrow>
      pauseTransfer transferId s = s) \<and>
   (map_of (activeTransfers s) transferId = Some r \<and> status (heap s r) = Paused \<longrightarrow>
      resumeTransfer transferId s = modify r (\<lambda>t. t\<lparr>status := Transferring\<rparr>) s \<and>
      status (heap (resumeTransfer transferId s) r) = Transferring) \<and>
   ((\<forall>r'. map_of (activeTransfers s) transferId = Some r' \<longrightarrow> status (heap s r') \<noteq> Paused) \<longrightarrow>
      resumeTransfer transferId s = s) \<and>
   activeTransfers (pauseTransfer transferId s) = activeTransfers s \<and>
   transferCallbacks (pauseTransfer transferId s) = transferCallbacks s \<and>
   receivedChunks (pauseTransfer transferId s) = receivedChunks s \<and>
   activeTransfers (resumeTransfer transferId s) = activeTransfers s \<and>
   transferCallbacks (resumeTransfer transferId s) = transferCallbacks s \<and>
   receivedChunks (resumeTransfer transferId s) = receivedChunks s \<and>
   (status (heap s (l_transfer fr)) = Paused \<longrightarrow>
      sendLoop pf w send fr i sentChunks out s = (False, out, s) \<and> finishSend fr s = s) \<and>
   (map_of (activeTransfers s) transferId = Some r \<and> (\<forall>m. send m) \<and>
    (\<forall>j<k. noPause (others w j)) \<and> others w k = [Pause transferId] \<and>
    k \<le> senderTotalChunks (file' (heap s r)) \<longrightarrow>
      (\<exists>s'. sendFileChunks pf w transferId send s =
         (None,
          transferStart pf (frameOf transferId r s) (checksum (heap s r)) #
            map (chunkMessage pf w (frameOf transferId r s)) [0..<k],
          s') \<and>
         status (heap s' r) = Paused))"
proof -
  have p1: "pauseTransfer transferId s = modify r (\<lambda>t. t\<lparr>status := Paused\<rparr>) s \<and>
      status (heap (pauseTransfer transferId s) r) = Paused"
    if "map_of (activeTransfers s) transferId = Some r \<and> status (heap s r) = Transferring"
    using that by (simp add: pauseTransfer_def)
  have p2: "pauseTransfer transferId s = s"
    if "\<forall>r'. map_of (activeTransfers s) transferId = Some r' \<longrightarrow> status (heap s r') \<noteq> Transferring"
    using that by (simp add: pauseTransfer_def split: option.split)
  have r1: "resumeTransfer transferId s = modify r (\<lambda>t. t\<lparr>status := Transferring\<rparr>) s \<and>
      status (heap (resumeTransfer transferId s) r) = Transferring"
    if "map_of (activeTransfers s) transferId = Some r \<and> status (heap s r) = Paused"
    using that by (simp add: resumeTransfer_def)
  have r2: "resumeTransfer transferId s = s"
    if "\<forall>r'. map_of (activeTransfers s) transferId = Some r' \<longrightarrow> status (heap s r') \<noteq> Paused"
    using that by (simp add: resumeTransfer_def split: option.split)
  have l1: "sendLoop pf w send fr i sentChunks out s = (False, out, s) \<and> finishSend fr s = s"
    if "status (heap s (l_transfer fr)) = Paused"
    using that by (simp add: sendLoop_paused finishSend_paused)
  have l2: "\<exists>s'. sendFileChunks pf w transferId send s =
         (None,
          transferStart pf (frameOf transferId r s) (checksum (heap s r)) #
            map (chunkMessage pf w (frameOf transferId r s)) [0..<k],
          s') \<and>
         status (heap s' r) = Paused"
    if "map_of (activeTransfers s) transferId = Some r \<and> (\<forall>m. send m) \<and>
        (\<forall>j<k. noPause (others w j)) \<and> others w k = [Pause transferId] \<and>
        k \<le> senderTotalChunks (file' (heap s r))"
    using that sendFileChunks_paused_at[of s transferId r send k w "frameOf transferId r s" pf]
    by blast
  from p1 p2 r1 r2 l1 l2 show ?thesis
    by (simp only: pauseTransfer_frame resumeTransfer_frame) blast
qed

lemma senderTotalChunks_smallFile: "senderTotalChunks smallFile = 1"
  by (simp add: senderTotalChunks_def ceil_chunks smallFile_simps CHUNK_SIZE_def)

lemma transferStart_senderState:
  "transferStart toyPlatform (frameOf ''t1'' 0 senderState) (checksum (heap senderState 0)) =
     TransferStart ''t1'' ''a.txt'' 3 1 ''k'' ''xxx''"
  by (simp add: transferStart_def senderState_simps senderTotalChunks_smallFile toyPlatform_def
        smallFile_simps)

lemma chunkMessage_senderState:
  "chunkMessage toyPlatform w (frameOf ''t1'' 0 senderState) 0 =
     FileChunk ''t1'' 0 [1, 2, 3] [] ''xxx'' True"
  by (simp add: chunkMessage_def senderState_simps senderTotalChunks_smallFile toyPlatform_def
        smallFile_simps readFileChunk_def CHUNK_SIZE_def Let_def)

theorem pause_resume_toggle_witness:
  "status (heap transferringState 0) = Transferring \<and>
   status (heap (pauseTransfer ''t1'' transferringState) 0) = Paused \<and>
   status (heap pausedState 0) = Paused \<and>
   status (heap (resumeTransfer ''t1'' pausedState) 0) = Transferring \<and>
   status (heap senderState 0) = Pending \<and>
   pauseTransfer ''t1'' senderState = senderState \<and>
   resumeTransfer ''t1'' senderState = senderState \<and>
   sendLoop toyPlatform quietRun (\<lambda>m. True) (frameOf ''t1'' 0 pausedState) 0 0 [] pausedState =
     (False, [], pausedState) \<and>
   (\<exists>s'. sendFileChunks toyPlatform pausedRun ''t1'' (\<lambda>m. True) senderState =
      (None,
       [TransferStart ''t1'' ''a.txt'' 3 1 ''k'' ''xxx'', FileChunk ''t1'' 0 [1, 2, 3] [] ''xxx'' True],
       s') \<and>
      status (heap s' 0) = Paused)"
proof -
  have regT: "map_of (activeTransfers transferringState) ''t1'' = Some 0"
    and stT: "status (heap transferringState 0) = Transferring"
    by (simp_all add: transferringState_def senderState_simps)
  have a: "status (heap (pauseTransfer ''t1'' transferringState) 0) = Paused"
    using pause_resume_toggle[of transferringState "''t1''" 0] regT stT by blast
  have regP: "map_of (activeTransfers pausedState) ''t1'' = Some 0"
    and stP: "status (heap pausedState 0) = Paused"
    using a regT by (simp_all add: pausedState_def)
  have b: "status (heap (resumeTransfer ''t1'' pausedState) 0) = Transferring"
    using pause_resume_toggle[of pausedState "''t1''" 0] regP stP by blast
  have stS: "status (heap senderState 0) = Pending" by (simp add: senderState_simps)
  have other: "\<forall>r'. map_of (activeTransfers senderState) ''t1'' = Some r' \<longrightarrow>
                 status (heap senderState r') \<noteq> Transferring"
      "\<forall>r'. map_of (activeTransfers senderState) ''t1'' = Some r' \<longrightarrow>
                 status (heap senderState r') \<noteq> Paused"
    by (simp_all add: senderState_simps)
  have c: "pauseTransfer ''t1'' senderState = senderState"
    using pause_resume_toggle[of senderState "''t1''"] other(1) by blast
  have d: "resumeTransfer ''t1'' senderState = senderState"
    using pause_resume_toggle[of senderState "''t1''"] other(2) by blast
  have regS: "map_of (activeTransfers senderState) ''t1'' = Some 0"
    by (simp add: senderState_simps)
  have hyp: "map_of (activeTransfers senderState) ''t1'' = Some 0 \<and> (\<forall>m. (\<lambda>m. True) m) \<and>
      (\<forall>j<1. noPause (others pausedRun j)) \<and> others pausedRun 1 = [Pause ''t1''] \<and>
      1 \<le> senderTotalChunks (file' (heap senderState 0))"
    by (simp add: senderState_simps pausedRun_def senderTotalChunks_smallFile)
  have "\<exists>s'. sendFileChunks toyPlatform pausedRun ''t1'' (\<lambda>m. True) senderState =
         (None,
          transferStart toyPlatform (frameOf ''t1'' 0 senderState) (checksum (heap senderState 0)) #
            map (chunkMessage toyPlatform pausedRun (frameOf ''t1'' 0 senderState)) [0..<1],
          s') \<and>
         status (heap s' 0) = Paused"
    using pause_resume_toggle[where s = senderState and transferId = "''t1''" and r = 0
        and send = "\<lambda>m. True" and k = 1 and w = pausedRun and pf = toyPlatform]
      hyp by blast
  then have e: "\<exists>s'. sendFileChunks toyPlatform pausedRun ''t1'' (\<lambda>m. True) senderState =
      (None,
       [TransferStart ''t1'' ''a.txt'' 3 1 ''k'' ''xxx'', FileChunk ''t1'' 0 [1, 2, 3] [] ''xxx'' True],
       s') \<and>
      status (heap s' 0) = Paused"
    by (simp add: transferStart_senderState chunkMessage_senderState)
  have stP': "status (heap pausedState (l_transfer (frameOf ''t1'' 0 pausedState))) = Paused"
    using stP by simp
  have f: "sendLoop toyPlatform quietRun (\<lambda>m. True) (frameOf ''t1'' 0 pausedState) 0 0 [] pausedState =
     (False, [], pausedState)"
    using pause_resume_toggle[where s = pausedState and fr = "frameOf ''t1'' 0 pausedState"
        and pf = toyPlatform and w = quietRun and send = "\<lambda>m. True" and i = 0 and sentChunks = 0
        and out = "[]"] stP'
    by blast
  from stT a stP b stS c d e f show ?thesis by blast
qed

section \<open>Facts about the receiver\<close>

lemma typed_set_fits:
  "offset + length source \<le> length combined \<Longrightarrow>
   typed_set combined source offset =
     Inr (take offset combined @ source @ drop (offset + length source) combined)"
  by (simp add: typed_set_def)

lemma joinChunks_simps [simp]:
  "joinChunks [] = []"
  "joinChunks (None # chunks) = joinChunks chunks"
  "joinChunks (Some b # chunks) = b @ joinChunks chunks"
  by (simp_all add: joinChunks_def)

lemma copyChunks_complete:
  "None \<notin> set chunks \<Longrightarrow> length combined = offset + totalSize chunks \<Longrightarrow>
   copyChunks chunks combined offset = Inr (take offset combined @ joinChunks chunks)"
proof (induction chunks arbitrary: combined offset)
  case Nil
  then show ?case by simp
next
  case (Cons c chunks)
  from Cons.prems(1) obtain b where c: "c = Some b" by (cases c) auto
  let ?combined = "take offset combined @ b @ drop (offset + length b) combined"
  have fits: "offset + length b \<le> length combined" using Cons.prems(2) c by simp
  have len: "length ?combined = (offset + length b) + totalSize chunks"
    using Cons.prems(2) c by simp
  have "copyChunks chunks ?combined (offset + length b) =
        Inr (take (offset + length b) ?combined @ joinChunks chunks)"
    using Cons.prems(1) len by (intro Cons.IH) simp_all
  moreover have "take (offset + length b) ?combined = take offset combined @ b"
    using fits by simp
  ultimately show ?case using fits by (simp add: c typed_set_fits)
qed

lemma copyChunks_hole:
  "None \<in> set chunks \<Longrightarrow> length combined = offset + totalSize chunks \<Longrightarrow>
   copyChunks chunks combined offset = Inl TypeError"
proof (induction chunks arbitrary: combined offset)
  case Nil
  then show ?case by simp
next
  case (Cons c chunks)
  show ?case
  proof (cases c)
    case None
    have "offset + length ([] :: bytes) \<le> length combined" using Cons.prems(2) by simp
    then show ?thesis by (simp add: None typed_set_fits)
  next
    case (Some b)
    let ?combined = "take offset combined @ b @ drop (offset + length b) combined"
    have fits: "offset + length b \<le> length combined" using Cons.prems(2) Some by simp
    have len: "length ?combined = (offset + length b) + totalSize chunks"
      using Cons.prems(2) Some by simp
    have "None \<in> set chunks" using Cons.prems(1) Some by simp
    then have "copyChunks chunks ?combined (offset + length b) = Inl TypeError"
      using len by (rule Cons.IH)
    then show ?thesis using fits by (simp add: Some typed_set_fits)
  qed
qed

lemma reconstructFile_cases:
  assumes "map_of (receivedChunks s) transferId = Some chunks"
  shows "reconstructFile transferId s =
           (if None \<in> set chunks then Inl TypeError else Inr (joinChunks chunks))"
  using assms copyChunks_hole[of chunks "replicate (totalSize chunks) 0" 0]
    copyChunks_complete[of chunks "replicate (totalSize chunks) 0" 0]
  by (simp add: reconstructFile_def)

lemma storeChunk_frame [simp]:
  "activeTransfers (storeChunk now r t i d s) = activeTransfers s"
  "transferCallbacks (storeChunk now r t i d s) = transferCallbacks s"
  "downloads (storeChunk now r t i d s) = downloads s"
  "status (heap (storeChunk now r t i d s) r') = status (heap s r')"
  "id' (heap (storeChunk now r t i d s) r') = id' (heap s r')"
  "file' (heap (storeChunk now r t i d s) r') = file' (heap s r')"
  "encryptionKey (heap (storeChunk now r t i d s) r') = encryptionKey (heap s r')"
  by (simp_all add: storeChunk_def Let_def)

lemma storeChunk_progress:
  "progress (heap (storeChunk now r t i d s) r) =
     js_times (js_div (i + 1) (receiverTotalChunks (file' (heap s r)))) 100"
  "speed (heap (storeChunk now r t i d s) r) =
     calculateTransferSpeed now (heap s r) ((i + 1) * CHUNK_SIZE)"
  by (simp_all add: storeChunk_def Let_def calculateTransferSpeed_def)

lemma storeChunk_buffer:
  "map_of (receivedChunks (storeChunk now r t i d s)) t =
     Some (array_set (case map_of (receivedChunks s) t of None \<Rightarrow> [] | Some chunks \<Rightarrow> chunks) i d)"
  by (auto simp: storeChunk_def Let_def update_conv')

lemma storeChunk_events:
  "events (storeChunk now r t i d s) =
     (case map_of (transferCallbacks s) t of
        None \<Rightarrow> events s
      | Some cb \<Rightarrow> events s @ [OnProgress cb (heap (storeChunk now r t i d s) r)])"
  by (simp add: storeChunk_def Let_def fire_events split: option.split)


lemma handleIncomingChunk_known:
  assumes "map_of (activeTransfers s) transferId = Some r"
      and "decrypt pf encryptedData (encryptionKey (heap s r)) iv = Some data"
      and "generateChecksum pf data = chunkChecksum"
  shows "handleIncomingChunk pf now (FileChunk transferId chunkIndex encryptedData iv chunkChecksum isLastChunk) s =
     (if isLastChunk
      then lastChunk transferId r chunkIndex (storeChunk now r transferId chunkIndex data s)
      else storeChunk now r transferId chunkIndex data s)"
  using assms by (simp add: resolveTransfer_def processChunk_def verifyChecksum_def Let_def)

lemma lastChunk_hole:
  assumes buf: "map_of (receivedChunks s) transferId = Some buf"
      and hole: "None \<in> set buf"
  shows "lastChunk transferId r chunkIndex s =
           handleTransferError transferId (FailedToProcess chunkIndex TypeError) s"
  using hole by (simp add: lastChunk_def reconstructFile_cases[OF buf])

lemma lastChunk_complete:
  assumes buf: "map_of (receivedChunks s) transferId = Some buf"
      and full: "None \<notin> set buf"
  shows "downloads (lastChunk transferId r chunkIndex s) =
           downloads s @ [(joinChunks buf, name (file' (heap s r)))]"
    and "status (heap (lastChunk transferId r chunkIndex s) r) = Completed"
    and "events (lastChunk transferId r chunkIndex s) =
           (case map_of (transferCallbacks s) transferId of
              None \<Rightarrow> events s
            | Some cb \<Rightarrow> events s @ [OnComplete cb (heap (lastChunk transferId r chunkIndex s) r)])"
    and "map_of (receivedChunks (lastChunk transferId r chunkIndex s)) transferId = None"
    and "activeTransfers (lastChunk transferId r chunkIndex s) = activeTransfers s"
  using full
  by (simp_all add: lastChunk_def reconstructFile_cases[OF buf] downloadFile_def Let_def
        fire_events delete_conv' split: option.split)

lemma array_set_length: "length (array_set xs i v) = max (length xs) (Suc i)"
  by (auto simp: array_set_def)

lemma array_set_nth: "array_set xs i v ! i = Some v"
  by (auto simp: array_set_def nth_append)

lemma last_chunk_outcome:
  assumes reg: "map_of (activeTransfers s) transferId = Some r"
      and cbs: "map_of (transferCallbacks s) transferId = Some cb"
      and dec: "decrypt pf encryptedData (encryptionKey (heap s r)) iv = Some data"
      and ck: "generateChecksum pf data = chunkChecksum"
      and buf: "buf = array_set (case map_of (receivedChunks s) transferId of
                                  None \<Rightarrow> [] | Some chunks \<Rightarrow> chunks) chunkIndex data"
      and res: "s' = handleIncomingChunk pf now
                       (FileChunk transferId chunkIndex encryptedData iv chunkChecksum True) s"
  shows "((\<exists>j<length buf. buf ! j = None) \<longrightarrow>
            status (heap s' r) = Failed \<and> downloads s' = downloads s \<and>
            map_of (receivedChunks s') transferId = Some buf \<and>
            (\<exists>evs. events s' =
               events s @ evs @ [OnError cb (heap s' r) (FailedToProcess chunkIndex TypeError)])) \<and>
         ((\<forall>j<length buf. buf ! j \<noteq> None) \<longrightarrow>
            downloads s' = downloads s @ [(joinChunks buf, name (file' (heap s r)))] \<and>
            status (heap s' r) = Completed \<and>
            (\<exists>evs. events s' = events s @ evs @ [OnComplete cb (heap s' r)]) \<and>
            map_of (receivedChunks s') transferId = None)"
proof -
  let ?s5 = "storeChunk now r transferId chunkIndex data s"
  have s': "s' = lastChunk transferId r chunkIndex ?s5"
    unfolding res by (simp only: handleIncomingChunk_known[OF reg dec ck] if_True)
  have b5: "map_of (receivedChunks ?s5) transferId = Some buf"
    unfolding buf by (rule storeChunk_buffer)
  have reg5: "map_of (activeTransfers ?s5) transferId = Some r" using reg by simp
  have cbs5: "map_of (transferCallbacks ?s5) transferId = Some cb" using cbs by simp
  have ev5: "events ?s5 = events s @ [OnProgress cb (heap ?s5 r)]"
    using cbs by (simp add: storeChunk_events)
  have holes: "(\<exists>j<length buf. buf ! j = None) = (None \<in> set buf)"
    by (simp add: in_set_conv_nth eq_commute)
  have a: "status (heap s' r) = Failed \<and> downloads s' = downloads s \<and>
            map_of (receivedChunks s') transferId = Some buf \<and>
            (\<exists>evs. events s' =
               events s @ evs @ [OnError cb (heap s' r) (FailedToProcess chunkIndex TypeError)])"
    if h: "None \<in> set buf"
  proof -
    have e: "s' = handleTransferError transferId (FailedToProcess chunkIndex TypeError) ?s5"
      unfolding s' using b5 h by (rule lastChunk_hole)
    have "status (heap s' r) = Failed"
      unfolding e using reg5 by (rule handleTransferError_registered(1))
    moreover have "downloads s' = downloads s" unfolding e by simp
    moreover have "map_of (receivedChunks s') transferId = Some buf" unfolding e using b5 by simp
    moreover have "events s' = events s @ [OnProgress cb (heap ?s5 r)] @
        [OnError cb (heap s' r) (FailedToProcess chunkIndex TypeError)]"
      unfolding e using handleTransferError_registered(2)[OF reg5] cbs5 ev5 by simp
    ultimately show ?thesis by blast
  qed
  have b: "downloads s' = downloads s @ [(joinChunks buf, name (file' (heap s r)))] \<and>
            status (heap s' r) = Completed \<and>
            (\<exists>evs. events s' = events s @ evs @ [OnComplete cb (heap s' r)]) \<and>
            map_of (receivedChunks s') transferId = None"
    if f: "None \<notin> set buf"
  proof -
    note lc = lastChunk_complete[OF b5 f, of r chunkIndex]
    have "downloads s' = downloads s @ [(joinChunks buf, name (file' (heap s r)))]"
      unfolding s' using lc(1) by simp
    moreover have "status (heap s' r) = Completed" unfolding s' by (rule lc(2))
    moreover have "events s' = events s @ [OnProgress cb (heap ?s5 r)] @ [OnComplete cb (heap s' r)]"
      unfolding s' using lc(3) cbs5 ev5 by simp
    moreover have "map_of (receivedChunks s') transferId = None" unfolding s' by (rule lc(4))
    ultimately show ?thesis by blast
  qed
  from a b holes show ?thesis by blast
qed

lemma receiverState_simps:
  "activeTransfers receiverState = [(''r1'', 0)]"
  "transferCallbacks receiverState = [(''r1'', 0)]"
  "receivedChunks receiverState = []"
  "events receiverState = []"
  "downloads receiverState = []"
  "heap receiverState 0 = incomingTransfer"
  by (simp_all add: receiverState_def registerIncomingTransfer_def emptyService_def
        incomingTransfer_def)

lemma incomingTransfer_simps:
  "id' incomingTransfer = ''r1''"
  "size' (file' incomingTransfer) = 10000"
  "name (file' incomingTransfer) = ''b.bin''"
  "status incomingTransfer = Transferring"
  "encryptionKey incomingTransfer = [7]"
  "startTime incomingTransfer = 1000"
  "progress incomingTransfer = Number 0"
  by (simp_all add: incomingTransfer_def)

lemma receiverTotalChunks_incoming: "receiverTotalChunks (file' incomingTransfer) = 3"
  by (simp add: receiverTotalChunks_def ceil_chunks incomingTransfer_simps CHUNK_SIZE_def)

lemma toyPlatform_simps:
  "decrypt toyPlatform e k i = Some e"
  "generateChecksum toyPlatform d = replicate (length d) CHR ''x''"
  by (simp_all add: toyPlatform_def)

section \<open>The last chunk\<close>

text \<open>
  Claim C2, as the code has it. When a \<^verbatim>\<open>file-chunk\<close> message with \<^verbatim>\<open>isLastChunk\<close> set is
  processed for a registered transfer (decryption and checksum succeed), the chunk is
  stored first; \<open>buf\<close> is the chunk buffer then. If \<open>buf\<close> has a hole, i.e. an index below
  its length holds no chunk, the reconstruction throws (a \<^verbatim>\<open>TypeError\<close>, caught by the
  handler): the transfer is \<^verbatim>\<open>failed\<close>, the error callback is invoked last, nothing is
  handed to the download, and the buffer is kept; this is what happens whenever an index
  below \<open>totalChunks\<close> is missing and the chunk's own index is at least \<open>totalChunks - 1\<close>, as
  it is for the last chunk of a sender with the same chunk size. If \<open>buf\<close> has no hole, the chunks of
  \<open>buf\<close> joined in index order are handed to the download under the file's name, the
  status is \<^verbatim>\<open>completed\<close>, the completion callback is invoked last, and the buffer is
  discarded. The length of \<open>buf\<close> is what the received indices make it; it is not compared
  with \<open>totalChunks\<close>.
\<close>

theorem last_chunk_reconstruction:
  assumes "map_of (activeTransfers s) transferId = Some r"
      and "map_of (transferCallbacks s) transferId = Some cb"
      and "decrypt pf encryptedData (encryptionKey (heap s r)) iv = Some data"
      and "generateChecksum pf data = chunkChecksum"
      and "old = (case map_of (receivedChunks s) transferId of None \<Rightarrow> [] | Some chunks \<Rightarrow> chunks)"
      and "buf = array_set old chunkIndex data"
      and "s' = handleIncomingChunk pf now
                  (FileChunk transferId chunkIndex encryptedData iv chunkChecksum True) s"
  shows "length buf = max (length old) (chunkIndex + 1) \<and>
         (receiverTotalChunks (file' (heap s r)) \<le> chunkIndex + 1 \<and>
          (\<exists>j<receiverTotalChunks (file' (heap s r)). length buf \<le> j \<or> buf ! j = None) \<longrightarrow>
            status (heap s' r) = Failed \<and> downloads s' = downloads s) \<and>
         ((\<exists>j<length buf. buf ! j = None) \<longrightarrow>
            status (heap s' r) = Failed \<and> downloads s' = downloads s \<and>
            map_of (receivedChunks s') transferId = Some buf \<and>
            (\<exists>evs. events s' =
               events s @ evs @ [OnError cb (heap s' r) (FailedToProcess chunkIndex TypeError)])) \<and>
         ((\<forall>j<length buf. buf ! j \<noteq> None) \<longrightarrow>
            downloads s' = downloads s @ [(joinChunks buf, name (file' (heap s r)))] \<and>
            status (heap s' r) = Completed \<and>
            (\<exists>evs. events s' = events s @ evs @ [OnComplete cb (heap s' r)]) \<and>
            map_of (receivedChunks s') transferId = None)"
proof -
  have b: "buf = array_set (case map_of (receivedChunks s) transferId of
                              None \<Rightarrow> [] | Some chunks \<Rightarrow> chunks) chunkIndex data"
    using assms(5,6) by simp
  have len: "length buf = max (length old) (chunkIndex + 1)"
    using assms(6) by (simp add: array_set_length)
  note oc = last_chunk_outcome[OF assms(1-4) b assms(7)]
  have "status (heap s' r) = Failed \<and> downloads s' = downloads s"
    if h: "receiverTotalChunks (file' (heap s r)) \<le> chunkIndex + 1 \<and>
          (\<exists>j<receiverTotalChunks (file' (heap s r)). length buf \<le> j \<or> buf ! j = None)"
  proof -
    from h obtain j where j: "j < receiverTotalChunks (file' (heap s r))"
      "length buf \<le> j \<or> buf ! j = None"
      by blast
    from h have "receiverTotalChunks (file' (heap s r)) \<le> chunkIndex + 1" by (rule conjunct1)
    with j(1) have "j < chunkIndex + 1" by linarith
    with len have "j < length buf" by linarith
    with j(2) have "\<exists>j<length buf. buf ! j = None" by auto
    with oc show ?thesis by blast
  qed
  with len oc show ?thesis by blast
qed

theorem last_chunk_reconstruction_witness:
  "map_of (activeTransfers receiverState) ''r1'' = Some 0 \<and>
   map_of (transferCallbacks receiverState) ''r1'' = Some 0 \<and>
   decrypt toyPlatform [4, 5] (encryptionKey (heap receiverState 0)) [] = Some [4, 5] \<and>
   generateChecksum toyPlatform [4, 5] = ''xx'' \<and>
   array_set [] 1 [4, 5 :: 8 word] = [None, Some [4, 5]] \<and>
   status (heap (handleIncomingChunk toyPlatform 2000
                   (FileChunk ''r1'' 1 [4, 5] [] ''xx'' True) receiverState) 0) = Failed \<and>
   downloads (handleIncomingChunk toyPlatform 2000
                (FileChunk ''r1'' 1 [4, 5] [] ''xx'' True) receiverState) = [] \<and>
   array_set [] 0 [9 :: 8 word] = [Some [9]] \<and>
   status (heap (handleIncomingChunk toyPlatform 2000
                   (FileChunk ''r1'' 0 [9] [] ''x'' True) receiverState) 0) = Completed \<and>
   downloads (handleIncomingChunk toyPlatform 2000
                (FileChunk ''r1'' 0 [9] [] ''x'' True) receiverState) = [([9], ''b.bin'')] \<and>
   receiverTotalChunks (file' (heap receiverState 0)) = 3 \<and>
   array_set [] 2 [6 :: 8 word] = [None, None, Some [6]] \<and>
   status (heap (handleIncomingChunk toyPlatform 2000
                   (FileChunk ''r1'' 2 [6] [] ''x'' True) receiverState) 0) = Failed"
proof -
  have reg: "map_of (activeTransfers receiverState) ''r1'' = Some 0"
    and cbs: "map_of (transferCallbacks receiverState) ''r1'' = Some 0"
    by (simp_all add: receiverState_simps)
  have old: "[] = (case map_of (receivedChunks receiverState) ''r1'' of
                     None \<Rightarrow> [] | Some chunks \<Rightarrow> chunks)"
    by (simp add: receiverState_simps)
  have dec1: "decrypt toyPlatform [4, 5] (encryptionKey (heap receiverState 0)) [] = Some [4, 5]"
    and ck1: "generateChecksum toyPlatform [4, 5] = ''xx''"
    and dec2: "decrypt toyPlatform [9] (encryptionKey (heap receiverState 0)) [] = Some [9]"
    and ck2: "generateChecksum toyPlatform [9] = ''x''"
    by (simp_all add: toyPlatform_simps)
  have b1: "array_set [] 1 [4, 5 :: 8 word] = [None, Some [4, 5]]"
    and b2: "array_set [] 0 [9 :: 8 word] = [Some [9]]"
    by (simp_all add: array_set_def)
  have hole: "\<exists>j<length [None, Some [4, 5 :: 8 word]]. [None, Some [4, 5 :: 8 word]] ! j = None"
    by (rule exI[of _ 0]) simp
  have full: "\<forall>j<length [Some [9 :: 8 word]]. [Some [9 :: 8 word]] ! j \<noteq> None"
    by simp
  from last_chunk_reconstruction[OF reg cbs dec1 ck1 old b1[symmetric] refl, of 2000] hole
  have r1: "status (heap (handleIncomingChunk toyPlatform 2000
                   (FileChunk ''r1'' 1 [4, 5] [] ''xx'' True) receiverState) 0) = Failed"
    "downloads (handleIncomingChunk toyPlatform 2000
                (FileChunk ''r1'' 1 [4, 5] [] ''xx'' True) receiverState) = downloads receiverState"
    by blast+
  from last_chunk_reconstruction[OF reg cbs dec2 ck2 old b2[symmetric] refl, of 2000] full
  have r2: "status (heap (handleIncomingChunk toyPlatform 2000
                   (FileChunk ''r1'' 0 [9] [] ''x'' True) receiverState) 0) = Completed"
    "downloads (handleIncomingChunk toyPlatform 2000
                (FileChunk ''r1'' 0 [9] [] ''x'' True) receiverState) =
       downloads receiverState @ [(joinChunks [Some [9]], name (file' (heap receiverState 0)))]"
    by blast+
  have dec3: "decrypt toyPlatform [6] (encryptionKey (heap receiverState 0)) [] = Some [6]"
    and ck3: "generateChecksum toyPlatform [6] = ''x''"
    by (simp_all add: toyPlatform_simps)
  have b3: "array_set [] 2 [6 :: 8 word] = [None, None, Some [6]]"
    by (simp add: array_set_def numeral_2_eq_2)
  have tot: "receiverTotalChunks (file' (heap receiverState 0)) = 3"
    by (simp add: receiverState_simps receiverTotalChunks_incoming)
  have missing: "receiverTotalChunks (file' (heap receiverState 0)) \<le> 2 + 1 \<and>
      (\<exists>j<receiverTotalChunks (file' (heap receiverState 0)).
         length [None, None, Some [6 :: 8 word]] \<le> j \<or> [None, None, Some [6 :: 8 word]] ! j = None)"
    unfolding tot by (intro conjI exI[of _ 0]) simp_all
  from last_chunk_reconstruction[OF reg cbs dec3 ck3 old b3[symmetric] refl, of 2000] missing
  have r3: "status (heap (handleIncomingChunk toyPlatform 2000
                   (FileChunk ''r1'' 2 [6] [] ''x'' True) receiverState) 0) = Failed"
    by blast
  from reg cbs dec1 ck1 b1 b2 r1 r2 tot b3 r3 show ?thesis
    by (simp add: receiverState_simps incomingTransfer_simps)
qed

theorem last_chunk_incomplete_counterexample:
  "receiverTotalChunks (file' (heap receiverState 0)) = 3 \<and>
   map_of (receivedChunks receiverState) ''r1'' = None \<and>
   status (heap (handleIncomingChunk toyPlatform 2000
                   (FileChunk ''r1'' 0 [1, 2, 3] [] ''xxx'' True) receiverState) 0) = Completed \<and>
   downloads (handleIncomingChunk toyPlatform 2000
                (FileChunk ''r1'' 0 [1, 2, 3] [] ''xxx'' True) receiverState) =
     [([1, 2, 3], ''b.bin'')]"
proof -
  let ?s' = "handleIncomingChunk toyPlatform 2000
               (FileChunk ''r1'' 0 [1, 2, 3] [] ''xxx'' True) receiverState"
  have reg: "map_of (activeTransfers receiverState) ''r1'' = Some 0"
    and cbs: "map_of (transferCallbacks receiverState) ''r1'' = Some 0"
    by (simp_all add: receiverState_simps)
  have dec: "decrypt toyPlatform [1, 2, 3] (encryptionKey (heap receiverState 0)) [] = Some [1, 2, 3]"
    and ck: "generateChecksum toyPlatform [1, 2, 3] = ''xxx''"
    by (simp_all add: toyPlatform_simps)
  have buf: "[Some [1, 2, 3 :: 8 word]] =
      array_set (case map_of (receivedChunks receiverState) ''r1'' of
                   None \<Rightarrow> [] | Some chunks \<Rightarrow> chunks) 0 [1, 2, 3]"
    by (simp add: receiverState_simps array_set_def)
  let ?s5 = "storeChunk 2000 0 ''r1'' 0 [1, 2, 3] receiverState"
  have s': "?s' = lastChunk ''r1'' 0 0 ?s5"
    by (simp only: handleIncomingChunk_known[OF reg dec ck] if_True)
  have b5: "map_of (receivedChunks ?s5) ''r1'' = Some [Some [1, 2, 3]]"
    using storeChunk_buffer[of 2000 0 "''r1''" 0 "[1, 2, 3]" receiverState] buf by simp
  have full: "None \<notin> set [Some [1, 2, 3 :: 8 word]]" by simp
  note lc = lastChunk_complete[OF b5 full, of 0 0]
  have "status (heap ?s' 0) = Completed" unfolding s' by (rule lc(2))
  moreover have "downloads ?s' = [([1, 2, 3], ''b.bin'')]"
    unfolding s' using lc(1) by (simp add: receiverState_simps incomingTransfer_simps)
  moreover have "receiverTotalChunks (file' (heap receiverState 0)) = 3"
    by (simp add: receiverState_simps receiverTotalChunks_incoming)
  moreover have "map_of (receivedChunks receiverState) ''r1'' = None"
    by (simp add: receiverState_simps)
  ultimately show ?thesis by simp
qed

lemma handleTransferError_fields [simp]:
  "id' (heap (handleTransferError t why s) r) = id' (heap s r)"
  "progress (heap (handleTransferError t why s) r) = progress (heap s r)"
  "speed (heap (handleTransferError t why s) r) = speed (heap s r)"
  by (simp_all add: handleTransferError_def Let_def split: option.split)

lemma handleTransferError_silent:
  "map_of (transferCallbacks s) t = None \<Longrightarrow> events (handleTransferError t why s) = events s"
  by (simp add: handleTransferError_def Let_def fire_events split: option.split)

lemma lastChunk_frame [simp]:
  "activeTransfers (lastChunk t r i s) = activeTransfers s"
  "transferCallbacks (lastChunk t r i s) = transferCallbacks s"
  "id' (heap (lastChunk t r i s) r') = id' (heap s r')"
  "progress (heap (lastChunk t r i s) r') = progress (heap s r')"
  "speed (heap (lastChunk t r i s) r') = speed (heap s r')"
  by (simp_all add: lastChunk_def Let_def downloadFile_def split: sum.split)

lemma lastChunk_silent:
  "map_of (transferCallbacks s) t = None \<Longrightarrow> events (lastChunk t r i s) = events s"
  by (simp add: lastChunk_def Let_def downloadFile_def fire_events handleTransferError_silent
        split: sum.split)

lemma processChunk_frame [simp]:
  "activeTransfers (processChunk pf now r t i e v c l s) = activeTransfers s"
  "transferCallbacks (processChunk pf now r t i e v c l s) = transferCallbacks s"
  "id' (heap (processChunk pf now r t i e v c l s) r') = id' (heap s r')"
  by (simp_all add: processChunk_def Let_def split: option.split)

lemma processChunk_silent:
  "map_of (transferCallbacks s) t = None \<Longrightarrow>
   events (processChunk pf now r t i e v c l s) = events s"
  by (simp add: processChunk_def Let_def handleTransferError_silent lastChunk_silent
        storeChunk_events split: option.split)

lemma find_none: "(\<forall>x\<in>set xs. \<not> P x) \<Longrightarrow> find P xs = None"
  by (induction xs) simp_all

lemma find_first: "(\<forall>x\<in>set before. \<not> P x) \<Longrightarrow> P r \<Longrightarrow> find P (before @ r # after) = Some r"
  by (induction before) simp_all

text \<open>The state after the fallback has moved transfer r to the incoming id.\<close>

lemma resolveTransfer_fallback:
  assumes "map_of (activeTransfers s) transferId = None"
      and "map snd (activeTransfers s) = before @ r # after"
      and "\<forall>q\<in>set before. status (heap s q) \<noteq> Transferring"
      and "status (heap s r) = Transferring"
  shows "resolveTransfer transferId s =
     Some (r, (modify r (\<lambda>t. t\<lparr>id' := transferId\<rparr>) s)
                \<lparr>activeTransfers :=
                   AList.update transferId r (AList.delete (id' (heap s r)) (activeTransfers s))\<rparr>)"
proof -
  have "find (\<lambda>r. status (heap s r) = Transferring) (map snd (activeTransfers s)) = Some r"
    unfolding assms(2) using assms(3,4) by (intro find_first) simp_all
  then show ?thesis using assms(1) by (simp add: resolveTransfer_def Let_def modify_def)
qed

lemma resolveTransfer_none:
  assumes "map_of (activeTransfers s) transferId = None"
      and "\<forall>r\<in>set (map snd (activeTransfers s)). status (heap s r) \<noteq> Transferring"
  shows "resolveTransfer transferId s = None"
proof -
  have "find (\<lambda>r. status (heap s r) = Transferring) (map snd (activeTransfers s)) = None"
    using assms(2) by (intro find_none) simp
  then show ?thesis using assms(1) by (simp add: resolveTransfer_def)
qed

lemma fallback_outcome:
  assumes unknown: "map_of (activeTransfers s) transferId = None"
      and res: "s' = handleIncomingChunk pf now
                  (FileChunk transferId chunkIndex encryptedData iv chunkChecksum isLastChunk) s"
  shows "((\<forall>r\<in>set (map snd (activeTransfers s)). status (heap s r) \<noteq> Transferring) \<longrightarrow> s' = s) \<and>
         (\<forall>before r after.
            map snd (activeTransfers s) = before @ r # after \<and>
            (\<forall>q\<in>set before. status (heap s q) \<noteq> Transferring) \<and>
            status (heap s r) = Transferring \<longrightarrow>
              s' = processChunk pf now r transferId chunkIndex encryptedData iv chunkChecksum isLastChunk
                     ((modify r (\<lambda>t. t\<lparr>id' := transferId\<rparr>) s)
                        \<lparr>activeTransfers :=
                           AList.update transferId r
                             (AList.delete (id' (heap s r)) (activeTransfers s))\<rparr>) \<and>
              map_of (activeTransfers s') transferId = Some r \<and>
              id' (heap s' r) = transferId \<and>
              (id' (heap s r) \<noteq> transferId \<longrightarrow> map_of (activeTransfers s') (id' (heap s r)) = None) \<and>
              transferCallbacks s' = transferCallbacks s \<and>
              (map_of (transferCallbacks s) transferId = None \<longrightarrow> events s' = events s))"
proof -
  have a: "s' = s"
    if "\<forall>r\<in>set (map snd (activeTransfers s)). status (heap s r) \<noteq> Transferring"
    unfolding res using resolveTransfer_none[OF unknown that] by simp
  have b: "s' = processChunk pf now r transferId chunkIndex encryptedData iv chunkChecksum isLastChunk
                     ((modify r (\<lambda>t. t\<lparr>id' := transferId\<rparr>) s)
                        \<lparr>activeTransfers :=
                           AList.update transferId r
                             (AList.delete (id' (heap s r)) (activeTransfers s))\<rparr>) \<and>
              map_of (activeTransfers s') transferId = Some r \<and>
              id' (heap s' r) = transferId \<and>
              (id' (heap s r) \<noteq> transferId \<longrightarrow> map_of (activeTransfers s') (id' (heap s r)) = None) \<and>
              transferCallbacks s' = transferCallbacks s \<and>
              (map_of (transferCallbacks s) transferId = None \<longrightarrow> events s' = events s)"
    if h: "map snd (activeTransfers s) = before @ r # after \<and>
            (\<forall>q\<in>set before. status (heap s q) \<noteq> Transferring) \<and>
            status (heap s r) = Transferring"
    for before r after
  proof -
    let ?k = "(modify r (\<lambda>t. t\<lparr>id' := transferId\<rparr>) s)
                \<lparr>activeTransfers :=
                   AList.update transferId r (AList.delete (id' (heap s r)) (activeTransfers s))\<rparr>"
    have rs: "resolveTransfer transferId s = Some (r, ?k)"
      using h by (intro resolveTransfer_fallback[OF unknown]) blast+
    have e: "s' = processChunk pf now r transferId chunkIndex encryptedData iv chunkChecksum isLastChunk ?k"
      unfolding res using rs by simp
    have "map_of (activeTransfers s') transferId = Some r"
      unfolding e by (simp add: update_conv')
    moreover have "id' (heap s' r) = transferId" unfolding e by simp
    moreover have "map_of (activeTransfers s') (id' (heap s r)) = None"
      if "id' (heap s r) \<noteq> transferId"
      unfolding e using that by (simp add: update_conv' delete_conv')
    moreover have "transferCallbacks s' = transferCallbacks s" unfolding e by simp
    moreover have "events s' = events s" if "map_of (transferCallbacks s) transferId = None"
      unfolding e using that by (simp add: processChunk_silent)
    ultimately show ?thesis using e by blast
  qed
  from a b show ?thesis by blast
qed


lemma twoTransfers_simps:
  "activeTransfers twoTransfers = [(''a'', 0), (''b'', 1)]"
  "transferCallbacks twoTransfers = [(''a'', 0), (''b'', 1)]"
  "receivedChunks twoTransfers = []"
  "events twoTransfers = []"
  "heap twoTransfers 0 = incomingTransfer\<lparr>id' := ''a''\<rparr>"
  "heap twoTransfers 1 = incomingTransfer\<lparr>id' := ''b''\<rparr>"
  "heap twoTransfers (Suc 0) = incomingTransfer\<lparr>id' := ''b''\<rparr>"
  by (simp_all add: twoTransfers_def registerIncomingTransfer_def emptyService_def
        incomingTransfer_def)

section \<open>A chunk for an unknown transfer\<close>

text \<open>
  Claim C5, as the code has it. When the transfer id of a \<^verbatim>\<open>file-chunk\<close> message is not in
  the registry, the registered transfers are searched in insertion order for the first
  one whose status is \<^verbatim>\<open>transferring\<close>; neither the chunks buffered so far nor the number
  of transferring transfers is looked at. If there is none, the chunk is dropped: the state
  is what it was, so no transfer is modified and no callback invoked. Otherwise that first
  transfer \<open>r\<close> is moved to the incoming id (its \<^verbatim>\<open>id\<close> field is set, the entry under its old
  id is deleted, a new entry is added) and the chunk is processed for it. The callbacks
  stay registered under the old id, so that no callback is invoked for the chunk unless
  callbacks happen to be registered under the incoming id.
\<close>

theorem unknown_transfer_fallback:
  assumes "map_of (activeTransfers s) transferId = None"
      and "s' = handleIncomingChunk pf now
                  (FileChunk transferId chunkIndex encryptedData iv chunkChecksum isLastChunk) s"
  shows "((\<forall>r\<in>set (map snd (activeTransfers s)). status (heap s r) \<noteq> Transferring) \<longrightarrow> s' = s) \<and>
         (\<forall>before r after.
            map snd (activeTransfers s) = before @ r # after \<and>
            (\<forall>q\<in>set before. status (heap s q) \<noteq> Transferring) \<and>
            status (heap s r) = Transferring \<longrightarrow>
              s' = processChunk pf now r transferId chunkIndex encryptedData iv chunkChecksum isLastChunk
                     ((modify r (\<lambda>t. t\<lparr>id' := transferId\<rparr>) s)
                        \<lparr>activeTransfers :=
                           AList.update transferId r
                             (AList.delete (id' (heap s r)) (activeTransfers s))\<rparr>) \<and>
              map_of (activeTransfers s') transferId = Some r \<and>
              id' (heap s' r) = transferId \<and>
              (id' (heap s r) \<noteq> transferId \<longrightarrow> map_of (activeTransfers s') (id' (heap s r)) = None) \<and>
              transferCallbacks s' = transferCallbacks s \<and>
              (map_of (transferCallbacks s) transferId = None \<longrightarrow> events s' = events s))"
  using assms by (rule fallback_outcome)

theorem unknown_transfer_fallback_witness:
  "map_of (activeTransfers senderState) ''x'' = None \<and>
   map snd (activeTransfers senderState) = [0] \<and>
   status (heap senderState 0) = Pending \<and>
   handleIncomingChunk toyPlatform 2000 (FileChunk ''x'' 0 [1] [] ''x'' False) senderState
     = senderState \<and>
   map_of (activeTransfers receiverState) ''x'' = None \<and>
   map snd (activeTransfers receiverState) = [] @ 0 # [] \<and>
   status (heap receiverState 0) = Transferring \<and>
   map_of (activeTransfers
      (handleIncomingChunk toyPlatform 2000 (FileChunk ''x'' 0 [1] [] ''x'' False) receiverState))
      ''x'' = Some 0 \<and>
   map_of (activeTransfers
      (handleIncomingChunk toyPlatform 2000 (FileChunk ''x'' 0 [1] [] ''x'' False) receiverState))
      ''r1'' = None \<and>
   events (handleIncomingChunk toyPlatform 2000 (FileChunk ''x'' 0 [1] [] ''x'' False) receiverState)
     = []"
proof -
  have u1: "map_of (activeTransfers senderState) ''x'' = None"
    and n1: "\<forall>r\<in>set (map snd (activeTransfers senderState)). status (heap senderState r) \<noteq> Transferring"
    by (simp_all add: senderState_simps)
  have a: "handleIncomingChunk toyPlatform 2000 (FileChunk ''x'' 0 [1] [] ''x'' False) senderState
             = senderState"
    using unknown_transfer_fallback[OF u1 refl, of toyPlatform 2000 0 "[1]" "[]" "''x''" False] n1
    by blast
  have u2: "map_of (activeTransfers receiverState) ''x'' = None"
    and l2: "map snd (activeTransfers receiverState) = [] @ 0 # []"
    and b2: "\<forall>q\<in>set []. status (heap receiverState q) \<noteq> Transferring"
    and t2: "status (heap receiverState 0) = Transferring"
    and i2: "id' (heap receiverState 0) = ''r1''"
    and c2: "map_of (transferCallbacks receiverState) ''x'' = None"
    by (simp_all add: receiverState_simps incomingTransfer_simps)
  let ?s' = "handleIncomingChunk toyPlatform 2000 (FileChunk ''x'' 0 [1] [] ''x'' False) receiverState"
  from unknown_transfer_fallback[OF u2 refl, of toyPlatform 2000 0 "[1]" "[]" "''x''" False] l2 b2 t2
  have "map_of (activeTransfers ?s') ''x'' = Some 0 \<and>
        (id' (heap receiverState 0) \<noteq> ''x'' \<longrightarrow>
           map_of (activeTransfers ?s') (id' (heap receiverState 0)) = None) \<and>
        (map_of (transferCallbacks receiverState) ''x'' = None \<longrightarrow> events ?s' = events receiverState)"
    by blast
  then have "map_of (activeTransfers ?s') ''x'' = Some 0"
    "map_of (activeTransfers ?s') ''r1'' = None" "events ?s' = []"
    using i2 c2 by (simp_all add: receiverState_simps)
  moreover have "map snd (activeTransfers senderState) = [0]"
    "status (heap senderState 0) = Pending"
    by (simp_all add: senderState_simps)
  ultimately show ?thesis using u1 a u2 l2 t2 by simp
qed

theorem fallback_two_candidates_counterexample:
  "map_of (activeTransfers twoTransfers) ''x'' = None \<and>
   status (heap twoTransfers 0) = Transferring \<and>
   status (heap twoTransfers 1) = Transferring \<and>
   receivedChunks twoTransfers = [] \<and>
   activeTransfers twoTransfers = [(''a'', 0), (''b'', 1)] \<and>
   activeTransfers
     (handleIncomingChunk toyPlatform 2000 (FileChunk ''x'' 0 [1] [] ''x'' False) twoTransfers)
     = [(''b'', 1), (''x'', 0)] \<and>
   id' (heap
     (handleIncomingChunk toyPlatform 2000 (FileChunk ''x'' 0 [1] [] ''x'' False) twoTransfers) 0)
     = ''x''"
proof -
  let ?s' = "handleIncomingChunk toyPlatform 2000 (FileChunk ''x'' 0 [1] [] ''x'' False) twoTransfers"
  have u: "map_of (activeTransfers twoTransfers) ''x'' = None"
    by (simp add: twoTransfers_simps)
  have l: "map snd (activeTransfers twoTransfers) = [] @ 0 # [1]"
    by (simp add: twoTransfers_simps)
  have t: "status (heap twoTransfers 0) = Transferring" "status (heap twoTransfers 1) = Transferring"
    by (simp_all add: twoTransfers_simps incomingTransfer_simps)
  have rs: "resolveTransfer ''x'' twoTransfers =
     Some (0, (modify 0 (\<lambda>t. t\<lparr>id' := ''x''\<rparr>) twoTransfers)
                \<lparr>activeTransfers :=
                   AList.update ''x'' 0 (AList.delete (id' (heap twoTransfers 0)) (activeTransfers twoTransfers))\<rparr>)"
    using u l _ t(1) by (rule resolveTransfer_fallback) simp
  have "activeTransfers ?s' =
        AList.update ''x'' 0 (AList.delete (id' (heap twoTransfers 0)) (activeTransfers twoTransfers))"
    using rs by simp
  then have "activeTransfers ?s' = [(''b'', 1), (''x'', 0)]"
    by (simp add: twoTransfers_simps AList.delete_eq)
  moreover have "id' (heap ?s' 0) = ''x''" using rs by simp
  ultimately show ?thesis using u t by (simp add: twoTransfers_simps)
qed

lemma bufferedState_eq: "bufferedState = storeChunk 2000 0 ''r1'' 0 [1, 2, 3] receiverState"
proof -
  have reg: "map_of (activeTransfers receiverState) ''r1'' = Some 0"
    by (simp add: receiverState_simps)
  have dec: "decrypt toyPlatform [1, 2, 3] (encryptionKey (heap receiverState 0)) [] = Some [1, 2, 3]"
    and ck: "generateChecksum toyPlatform [1, 2, 3] = ''xxx''"
    by (simp_all add: toyPlatform_simps)
  show ?thesis
    unfolding bufferedState_def by (simp only: handleIncomingChunk_known[OF reg dec ck] if_False)
qed

section \<open>Cancelling a transfer\<close>

text \<open>
  Claim C6, at a failing input. A transfer that is transferring and has one chunk
  buffered is cancelled: the transfer is marked \<^verbatim>\<open>failed\<close> and its entries in the transfer
  map and in the callback map are gone, but its chunk buffer is still in \<^verbatim>\<open>receivedChunks\<close>.
\<close>

theorem cancelTransfer_keeps_chunk_buffer:
  "map_of (activeTransfers bufferedState) ''r1'' = Some 0 \<and>
   status (heap bufferedState 0) = Transferring \<and>
   map_of (receivedChunks bufferedState) ''r1'' = Some [Some [1, 2, 3]] \<and>
   map_of (activeTransfers (cancelTransfer ''r1'' bufferedState)) ''r1'' = None \<and>
   map_of (transferCallbacks (cancelTransfer ''r1'' bufferedState)) ''r1'' = None \<and>
   status (heap (cancelTransfer ''r1'' bufferedState) 0) = Failed \<and>
   map_of (receivedChunks (cancelTransfer ''r1'' bufferedState)) ''r1'' = Some [Some [1, 2, 3]]"
proof -
  have reg: "map_of (activeTransfers bufferedState) ''r1'' = Some 0"
    by (simp add: bufferedState_eq receiverState_simps)
  have st: "status (heap bufferedState 0) = Transferring"
    by (simp add: bufferedState_eq receiverState_simps incomingTransfer_simps)
  have buf: "map_of (receivedChunks bufferedState) ''r1'' = Some [Some [1, 2, 3]]"
    by (simp add: bufferedState_eq storeChunk_buffer receiverState_simps array_set_def)
  have c: "cancelTransfer ''r1'' bufferedState =
      (modify 0 (\<lambda>t. t\<lparr>status := Failed\<rparr>) bufferedState)
        \<lparr>activeTransfers := AList.delete ''r1'' (activeTransfers bufferedState),
         transferCallbacks := AList.delete ''r1'' (transferCallbacks bufferedState)\<rparr>"
    using reg by (simp add: cancelTransfer_def)
  show ?thesis
    using reg st buf by (simp add: c delete_conv')
qed

section \<open>Speed and progress\<close>

lemma progressValues_simps [simp]:
  "progressValues [] = []"
  "progressValues (e # evs) = progressOf e @ progressValues evs"
  "progressValues (evs @ evs') = progressValues evs @ progressValues evs'"
  by (simp_all add: progressValues_def)

lemma calculateTransferSpeed_nonneg: "0 \<le> calculateTransferSpeed now t bytesTransferred"
  by (simp add: calculateTransferSpeed_def Let_def)

lemma progress_mono:
  "i \<le> j \<Longrightarrow> number_le (js_times (js_div (i + 1) n) 100) (js_times (js_div (j + 1) n) 100)"
  by (cases "n = 0") (simp_all add: divide_right_mono)

lemma sorted_progress:
  "sorted_wrt number_le (map (\<lambda>j. js_times (js_div (j + 1) n) 100) [0..<k])"
proof -
  have "number_le (js_times (js_div (Suc i) n) 100) (js_times (js_div (Suc j) n) 100)"
    if "i < j" for i j
    using progress_mono[of i j n] that by (simp del: js_div.simps js_times.simps)
  then show ?thesis
    by (simp add: sorted_wrt_map sorted_wrt_iff_nth_less del: js_div.simps js_times.simps)
qed

text \<open>The progress values reported by the loop from step i on.\<close>

lemma sendLoop_progressValues:
  "map_of (transferCallbacks s) (l_transferId fr) = Some cb \<Longrightarrow>
   \<exists>evs k. events (snd (snd (sendLoop pf w send fr i i out s))) = events s @ evs \<and>
           i + k \<le> max i (l_totalChunks fr) \<and>
           progressValues evs =
             map (\<lambda>j. js_times (js_div (j + 1) (l_totalChunks fr)) 100) [i..<i + k]"
proof (induction "l_totalChunks fr - i" arbitrary: i out s)
  case 0
  then have "sendLoop pf w send fr i i out s = (False, out, s)" by (simp add: sendLoop_done)
  then have "events (snd (snd (sendLoop pf w send fr i i out s))) = events s @ [] \<and>
      i + 0 \<le> max i (l_totalChunks fr) \<and>
      progressValues [] = map (\<lambda>j. js_times (js_div (j + 1) (l_totalChunks fr)) 100) [i..<i + 0]"
    by simp
  then show ?case by blast
next
  case (Suc d)
  then have lt: "i < l_totalChunks fr" by simp
  let ?pv = "\<lambda>j. js_times (js_div (j + 1) (l_totalChunks fr)) 100"
  consider (paused) "status (heap s (l_transfer fr)) = Paused"
    | (reject) "status (heap s (l_transfer fr)) \<noteq> Paused" "\<not> send (chunkMessage pf w fr i)"
    | (step) "status (heap s (l_transfer fr)) \<noteq> Paused" "send (chunkMessage pf w fr i)"
    by blast
  then show ?case
  proof cases
    case paused
    then have "events (snd (snd (sendLoop pf w send fr i i out s))) = events s @ [] \<and>
      i + 0 \<le> max i (l_totalChunks fr) \<and> progressValues [] = map ?pv [i..<i + 0]"
      by (simp add: sendLoop_paused)
    then show ?thesis by blast
  next
    case reject
    let ?s1 = "serve (others w (Suc i)) s"
    let ?s2 = "handleTransferError (l_transferId fr) (FailedToSendChunk i) ?s1"
    have "\<exists>evs. events ?s2 = events s @ evs \<and> progressValues evs = []"
      by (simp add: handleTransferError_def Let_def fire_events split: option.split)
    then obtain evs where "events ?s2 = events s @ evs" "progressValues evs = []" by blast
    then have "events (snd (snd (sendLoop pf w send fr i i out s))) = events s @ evs \<and>
      i + 0 \<le> max i (l_totalChunks fr) \<and> progressValues evs = map ?pv [i..<i + 0]"
      using lt reject by (simp add: sendLoop_reject)
    then show ?thesis by blast
  next
    case step
    let ?s1 = "recordProgress w fr i (Suc i) (serve (others w (Suc i)) s)"
    have cb1: "map_of (transferCallbacks ?s1) (l_transferId fr) = Some cb"
      using Suc.prems by simp
    have d: "d = l_totalChunks fr - Suc i" using Suc.hyps(2) by simp
    from Suc.hyps(1)[OF d cb1, of "out @ [chunkMessage pf w fr i]"]
    obtain evs k where ek:
      "events (snd (snd (sendLoop pf w send fr (Suc i) (Suc i) (out @ [chunkMessage pf w fr i]) ?s1)))
         = events ?s1 @ evs"
      "Suc i + k \<le> max (Suc i) (l_totalChunks fr)"
      "progressValues evs = map ?pv [Suc i..<Suc i + k]"
      by blast
    have e1: "events ?s1 = events s @ [OnProgress cb (heap ?s1 (l_transfer fr))]"
      using Suc.prems by (simp add: recordProgress_events)
    have p1: "progress (heap ?s1 (l_transfer fr)) = ?pv i" by simp
    have "events (snd (snd (sendLoop pf w send fr i i out s))) =
          events s @ (OnProgress cb (heap ?s1 (l_transfer fr)) # evs)"
      using ek(1) e1 lt step by (simp add: sendLoop_step)
    moreover have "i + Suc k \<le> max i (l_totalChunks fr)" using ek(2) lt by simp
    moreover have "progressValues (OnProgress cb (heap ?s1 (l_transfer fr)) # evs) =
          map ?pv [i..<i + Suc k]"
      using ek(3) p1 by (simp add: upt_conv_Cons del: upt_Suc js_div.simps js_times.simps)
    ultimately show ?thesis by blast
  qed
qed


lemma finishSend_events:
  "\<exists>tail. events (finishSend fr s) = events s @ tail \<and> progressValues tail = []"
  by (simp add: finishSend_def Let_def fire_events split: option.split)

lemma sendFileChunks_progress:
  assumes reg: "map_of (activeTransfers s) transferId = Some r"
      and cbs: "map_of (transferCallbacks s) transferId = Some cb"
      and run: "sendFileChunks pf w transferId send s = (err, out, s')"
  shows "\<exists>evs k. events s' = events s @ evs \<and> k \<le> senderTotalChunks (file' (heap s r)) \<and>
           progressValues evs =
             map (\<lambda>j. js_times (js_div (j + 1) (senderTotalChunks (file' (heap s r)))) 100) [0..<k]"
proof -
  let ?fr = "frameOf transferId r s"
  let ?s0 = "modify r (\<lambda>t. t\<lparr>status := Transferring\<rparr>) s"
  let ?s1 = "serve (others w 0) ?s0"
  let ?md = "transferStart pf ?fr (checksum (heap s r))"
  let ?pv = "\<lambda>j. js_times (js_div (j + 1) (senderTotalChunks (file' (heap s r)))) 100"
  note unfold = sendFileChunks_registered[OF reg refl refl refl, of pf w send]
  have cbs1: "map_of (transferCallbacks ?s1) (l_transferId ?fr) = Some cb" using cbs by simp
  show ?thesis
  proof (cases "send ?md")
    case False
    then have "s' = handleTransferError transferId FailedToSendMetadata ?s1"
      using run unfolding unfold by simp
    then have "events s' = events s @ [OnError cb (heap s' r) FailedToSendMetadata]"
      using reg cbs by (simp add: handleTransferError_def Let_def fire_events)
    then have "events s' = events s @ [OnError cb (heap s' r) FailedToSendMetadata] \<and>
        0 \<le> senderTotalChunks (file' (heap s r)) \<and>
        progressValues [OnError cb (heap s' r) FailedToSendMetadata] = map ?pv [0..<0]"
      by simp
    then show ?thesis by blast
  next
    case True
    obtain ret out2 s2 where loop: "sendLoop pf w send ?fr 0 0 [?md] ?s1 = (ret, out2, s2)"
      by (cases "sendLoop pf w send ?fr 0 0 [?md] ?s1") auto
    from sendLoop_progressValues[OF cbs1, of pf w send 0 "[?md]"] loop
    obtain evs k where ek: "events s2 = events s @ evs" "k \<le> senderTotalChunks (file' (heap s r))"
      "progressValues evs = map ?pv [0..<k]"
      by auto
    obtain tail where tl: "events (finishSend ?fr s2) = events s2 @ tail" "progressValues tail = []"
      using finishSend_events by blast
    show ?thesis
    proof (cases ret)
      case True
      with \<open>send ?md\<close> have "s' = s2" using run unfolding unfold loop by simp
      with ek show ?thesis by blast
    next
      case False
      with \<open>send ?md\<close> have "s' = finishSend ?fr s2" using run unfolding unfold loop by simp
      with ek tl have "events s' = events s @ (evs @ tail)" "progressValues (evs @ tail) = map ?pv [0..<k]"
        by simp_all
      with ek(2) show ?thesis by blast
    qed
  qed
qed

lemma handleIncomingChunk_progress:
  assumes reg: "map_of (activeTransfers s) transferId = Some r"
      and dec: "decrypt pf encryptedData (encryptionKey (heap s r)) iv = Some data"
      and ck: "generateChecksum pf data = chunkChecksum"
  shows "progress (heap (handleIncomingChunk pf now
            (FileChunk transferId chunkIndex encryptedData iv chunkChecksum isLastChunk) s) r) =
           js_times (js_div (chunkIndex + 1) (receiverTotalChunks (file' (heap s r)))) 100"
    and "speed (heap (handleIncomingChunk pf now
            (FileChunk transferId chunkIndex encryptedData iv chunkChecksum isLastChunk) s) r) =
           calculateTransferSpeed now (heap s r) ((chunkIndex + 1) * CHUNK_SIZE)"
  by (simp_all only: handleIncomingChunk_known[OF reg dec ck] lastChunk_frame storeChunk_progress
        if_distrib[of "\<lambda>x. heap x r"] if_distrib[of progress] if_distrib[of speed] if_cancel)


lemma afterSecondChunk_eq: "afterSecondChunk = storeChunk 2000 0 ''r1'' 1 [4, 5] receiverState"
proof -
  have reg: "map_of (activeTransfers receiverState) ''r1'' = Some 0"
    by (simp add: receiverState_simps)
  have dec: "decrypt toyPlatform [4, 5] (encryptionKey (heap receiverState 0)) [] = Some [4, 5]"
    and ck: "generateChecksum toyPlatform [4, 5] = ''xx''"
    by (simp_all add: toyPlatform_simps)
  show ?thesis
    unfolding afterSecondChunk_def by (simp only: handleIncomingChunk_known[OF reg dec ck] if_False)
qed

lemma afterBothChunks_eq: "afterBothChunks = storeChunk 3000 0 ''r1'' 0 [1, 2, 3] afterSecondChunk"
proof -
  have reg: "map_of (activeTransfers afterSecondChunk) ''r1'' = Some 0"
    by (simp add: afterSecondChunk_eq receiverState_simps)
  have dec: "decrypt toyPlatform [1, 2, 3] (encryptionKey (heap afterSecondChunk 0)) [] = Some [1, 2, 3]"
    and ck: "generateChecksum toyPlatform [1, 2, 3] = ''xxx''"
    by (simp_all add: toyPlatform_simps)
  show ?thesis
    unfolding afterBothChunks_def by (simp only: handleIncomingChunk_known[OF reg dec ck] if_False)
qed

text \<open>
  Claim C9, as the code has it. The speed computed by \<^verbatim>\<open>calculateTransferSpeed\<close> is never
  negative. On the sender, the progress values reported during one call of
  \<^verbatim>\<open>sendFileChunks\<close> are \<open>(j + 1) / totalChunks * 100\<close> for \<open>j = 0, \<dots>, k - 1\<close>, \<open>k\<close> being the
  number of chunks accepted, so they never decrease. On the receiver, the progress after
  a chunk that was decrypted and verified is \<open>(chunkIndex + 1) / totalChunks * 100\<close> whatever
  it was before: it does not decrease from one chunk to the next when the chunk indices
  arrive in non-decreasing order.
\<close>

theorem speed_and_progress:
  "0 \<le> calculateTransferSpeed now t bytesTransferred \<and>
   (map_of (activeTransfers s) transferId = Some r \<and>
    map_of (transferCallbacks s) transferId = Some cb \<and>
    sendFileChunks pf w transferId send s = (err, out, s') \<longrightarrow>
      (\<exists>evs k. events s' = events s @ evs \<and> k \<le> senderTotalChunks (file' (heap s r)) \<and>
         progressValues evs =
           map (\<lambda>j. js_times (js_div (j + 1) (senderTotalChunks (file' (heap s r)))) 100) [0..<k] \<and>
         sorted_wrt number_le (progressValues evs))) \<and>
   (map_of (activeTransfers s) transferId = Some r \<and>
    decrypt pf encryptedData (encryptionKey (heap s r)) iv = Some data \<and>
    generateChecksum pf data = chunkChecksum \<longrightarrow>
      progress (heap (handleIncomingChunk pf now
          (FileChunk transferId chunkIndex encryptedData iv chunkChecksum isLastChunk) s) r) =
        js_times (js_div (chunkIndex + 1) (receiverTotalChunks (file' (heap s r)))) 100 \<and>
      speed (heap (handleIncomingChunk pf now
          (FileChunk transferId chunkIndex encryptedData iv chunkChecksum isLastChunk) s) r) =
        calculateTransferSpeed now (heap s r) ((chunkIndex + 1) * CHUNK_SIZE)) \<and>
   (i \<le> j \<longrightarrow>
      number_le (js_times (js_div (i + 1) n) 100) (js_times (js_div (j + 1) n) 100))"
proof -
  have a: "\<exists>evs k. events s' = events s @ evs \<and> k \<le> senderTotalChunks (file' (heap s r)) \<and>
         progressValues evs =
           map (\<lambda>j. js_times (js_div (j + 1) (senderTotalChunks (file' (heap s r)))) 100) [0..<k] \<and>
         sorted_wrt number_le (progressValues evs)"
    if h: "map_of (activeTransfers s) transferId = Some r \<and>
        map_of (transferCallbacks s) transferId = Some cb \<and>
        sendFileChunks pf w transferId send s = (err, out, s')"
  proof -
    from h sendFileChunks_progress[of s transferId r cb pf w send err out s']
    obtain evs k where ek: "events s' = events s @ evs" "k \<le> senderTotalChunks (file' (heap s r))"
      "progressValues evs =
         map (\<lambda>j. js_times (js_div (j + 1) (senderTotalChunks (file' (heap s r)))) 100) [0..<k]"
      by blast
    have "sorted_wrt number_le (progressValues evs)"
      unfolding ek(3) by (rule sorted_progress)
    with ek show ?thesis by blast
  qed
  have b: "progress (heap (handleIncomingChunk pf now
          (FileChunk transferId chunkIndex encryptedData iv chunkChecksum isLastChunk) s) r) =
        js_times (js_div (chunkIndex + 1) (receiverTotalChunks (file' (heap s r)))) 100 \<and>
      speed (heap (handleIncomingChunk pf now
          (FileChunk transferId chunkIndex encryptedData iv chunkChecksum isLastChunk) s) r) =
        calculateTransferSpeed now (heap s r) ((chunkIndex + 1) * CHUNK_SIZE)"
    if "map_of (activeTransfers s) transferId = Some r \<and>
        decrypt pf encryptedData (encryptionKey (heap s r)) iv = Some data \<and>
        generateChecksum pf data = chunkChecksum"
    using that handleIncomingChunk_progress[of s transferId r pf encryptedData iv data chunkChecksum
        now chunkIndex isLastChunk]
    by blast
  show ?thesis
  proof (intro conjI)
    show "0 \<le> calculateTransferSpeed now t bytesTransferred"
      by (rule calculateTransferSpeed_nonneg)
    show "map_of (activeTransfers s) transferId = Some r \<and>
        map_of (transferCallbacks s) transferId = Some cb \<and>
        sendFileChunks pf w transferId send s = (err, out, s') \<longrightarrow>
      (\<exists>evs k. events s' = events s @ evs \<and> k \<le> senderTotalChunks (file' (heap s r)) \<and>
         progressValues evs =
           map (\<lambda>j. js_times (js_div (j + 1) (senderTotalChunks (file' (heap s r)))) 100) [0..<k] \<and>
         sorted_wrt number_le (progressValues evs))"
      using a by (rule impI)
    show "map_of (activeTransfers s) transferId = Some r \<and>
        decrypt pf encryptedData (encryptionKey (heap s r)) iv = Some data \<and>
        generateChecksum pf data = chunkChecksum \<longrightarrow>
      progress (heap (handleIncomingChunk pf now
          (FileChunk transferId chunkIndex encryptedData iv chunkChecksum isLastChunk) s) r) =
        js_times (js_div (chunkIndex + 1) (receiverTotalChunks (file' (heap s r)))) 100 \<and>
      speed (heap (handleIncomingChunk pf now
          (FileChunk transferId chunkIndex encryptedData iv chunkChecksum isLastChunk) s) r) =
        calculateTransferSpeed now (heap s r) ((chunkIndex + 1) * CHUNK_SIZE)"
      using b by (rule impI)
    show "i \<le> j \<longrightarrow>
      number_le (js_times (js_div (i + 1) n) 100) (js_times (js_div (j + 1) n) 100)"
      using progress_mono[of i j n] by (rule impI)
  qed
qed

theorem speed_and_progress_witness:
  "map_of (activeTransfers senderState) ''t1'' = Some 0 \<and>
   map_of (transferCallbacks senderState) ''t1'' = Some 0 \<and>
   sorted_wrt number_le (progressValues (drop (length (events senderState))
     (events (snd (snd (sendFileChunks toyPlatform quietRun ''t1'' (\<lambda>m. True) senderState)))))) \<and>
   map_of (activeTransfers receiverState) ''r1'' = Some 0 \<and>
   decrypt toyPlatform [4, 5] (encryptionKey (heap receiverState 0)) [] = Some [4, 5] \<and>
   generateChecksum toyPlatform [4, 5] = ''xx'' \<and>
   progress (heap afterSecondChunk 0) = Number (200 / 3) \<and>
   (0::nat) \<le> 1 \<and>
   number_le (js_times (js_div (0 + 1) 3) 100) (js_times (js_div (1 + 1) 3) 100) \<and>
   0 \<le> calculateTransferSpeed 2000 incomingTransfer 4096"
proof -
  let ?X = "sendFileChunks toyPlatform quietRun ''t1'' (\<lambda>m. True) senderState"
  have reg: "map_of (activeTransfers senderState) ''t1'' = Some 0"
    and cbs: "map_of (transferCallbacks senderState) ''t1'' = Some 0"
    by (simp_all add: senderState_simps)
  have run: "?X = (fst ?X, fst (snd ?X), snd (snd ?X))" by simp
  note sender = speed_and_progress[where s = senderState and transferId = "''t1''" and r = 0
      and cb = 0 and pf = toyPlatform and w = quietRun and send = "\<lambda>m. True" and err = "fst ?X"
      and out = "fst (snd ?X)" and s' = "snd (snd ?X)",
      THEN conjunct2, THEN conjunct1, THEN mp, OF conjI[OF reg conjI[OF cbs run]]]
  from sender obtain evs where "events (snd (snd ?X)) = events senderState @ evs"
    "sorted_wrt number_le (progressValues evs)"
    by blast
  then have a: "sorted_wrt number_le (progressValues (drop (length (events senderState))
     (events (snd (snd ?X)))))"
    by simp
  have reg2: "map_of (activeTransfers receiverState) ''r1'' = Some 0"
    and dec: "decrypt toyPlatform [4, 5] (encryptionKey (heap receiverState 0)) [] = Some [4, 5]"
    and ck: "generateChecksum toyPlatform [4, 5] = ''xx''"
    by (simp_all add: receiverState_simps toyPlatform_simps)
  note receiver = speed_and_progress[where s = receiverState and transferId = "''r1''" and r = 0
      and pf = toyPlatform and encryptedData = "[4, 5]" and iv = "[]" and data = "[4, 5]"
      and chunkChecksum = "''xx''" and now = 2000 and chunkIndex = 1 and isLastChunk = False,
      THEN conjunct2, THEN conjunct2, THEN conjunct1, THEN mp, OF conjI[OF reg2 conjI[OF dec ck]],
      THEN conjunct1]
  have "progress (heap afterSecondChunk 0) =
      js_times (js_div (1 + 1) (receiverTotalChunks (file' (heap receiverState 0)))) 100"
    unfolding afterSecondChunk_def by (rule receiver)
  then have b: "progress (heap afterSecondChunk 0) = Number (200 / 3)"
    by (simp add: receiverState_simps receiverTotalChunks_incoming)
  have le: "(0::nat) \<le> 1" by simp
  have c: "number_le (js_times (js_div (0 + 1) 3) 100) (js_times (js_div (1 + 1) 3) 100)"
    by (rule speed_and_progress[where i = 0 and j = 1 and n = 3,
          THEN conjunct2, THEN conjunct2, THEN conjunct2, THEN mp, OF le])
  have d: "0 \<le> calculateTransferSpeed 2000 incomingTransfer 4096"
    by (rule speed_and_progress[where now = 2000 and t = incomingTransfer
          and bytesTransferred = 4096, THEN conjunct1])
  from reg cbs a reg2 dec ck b le c d show ?thesis by (intro conjI)
qed

theorem receiver_progress_decreases_counterexample:
  "status (heap afterSecondChunk 0) = Transferring \<and>
   status (heap afterBothChunks 0) = Transferring \<and>
   progress (heap afterSecondChunk 0) = Number (200 / 3) \<and>
   progress (heap afterBothChunks 0) = Number (100 / 3) \<and>
   \<not> number_le (progress (heap afterSecondChunk 0)) (progress (heap afterBothChunks 0))"
proof -
  have t: "receiverTotalChunks (file' (heap receiverState 0)) = 3"
    by (simp add: receiverState_simps receiverTotalChunks_incoming)
  have f: "file' (heap afterSecondChunk 0) = file' (heap receiverState 0)"
    by (simp add: afterSecondChunk_eq)
  have p1: "progress (heap afterSecondChunk 0) = Number (200 / 3)"
    by (simp add: afterSecondChunk_eq storeChunk_progress t)
  have p2: "progress (heap afterBothChunks 0) = Number (100 / 3)"
    by (simp add: afterBothChunks_eq storeChunk_progress f t)
  have s1: "status (heap afterSecondChunk 0) = Transferring"
    by (simp add: afterSecondChunk_eq receiverState_simps incomingTransfer_simps)
  have s2: "status (heap afterBothChunks 0) = Transferring"
    by (simp add: afterBothChunks_eq afterSecondChunk_eq receiverState_simps incomingTransfer_simps)
  show ?thesis using s1 s2 by (simp add: p1 p2)
qed

section \<open>The number of chunks\<close>

lemma ceil_div_bounds:
  assumes "0 < (b::nat)"
  shows "(n::nat) \<le> ((n + b - 1) div b) * b" and "((n + b - 1) div b) * b < n + b"
proof -
  define k where "k = (n + b - 1) div b"
  have a: "k * b \<le> n + b - 1"
    unfolding k_def by (rule div_times_less_eq_dividend)
  have b: "n + b - 1 < b + k * b"
    unfolding k_def using assms by (rule dividend_less_div_times)
  show "n \<le> ((n + b - 1) div b) * b" using b assms unfolding k_def by linarith
  show "((n + b - 1) div b) * b < n + b" using a assms unfolding k_def by linarith
qed

lemma CHUNK_SIZE_pos: "0 < CHUNK_SIZE"
  by (simp add: CHUNK_SIZE_def)

lemma emptySender_simps:
  "activeTransfers emptySender = [(''t0'', 0)]"
  "transferCallbacks emptySender = [(''t0'', 0)]"
  "events emptySender = []"
  "heap emptySender 0 =
     \<lparr>id' = ''t0'', file' = emptyFile, status = Pending, progress = Number 0, speed = 0,
      startTime = 0, encryptionKey = [7], checksum = [], peerId = ''peer''\<rparr>"
  by (simp_all add: emptySender_def startFileTransfer_def emptyService_def toyPlatform_def
        emptyFile_def Let_def)

lemma empty_file_messages:
  assumes reg: "map_of (activeTransfers s) transferId = Some r"
      and empty: "size' (file' (heap s r)) = 0"
      and run: "sendFileChunks pf w transferId send s = (err, out, s')"
  shows "out = [TransferStart transferId (name (file' (heap s r))) 0 0
                  (exportKey pf (encryptionKey (heap s r))) (checksum (heap s r))]"
proof -
  let ?fr = "frameOf transferId r s"
  let ?s1 = "serve (others w 0) (modify r (\<lambda>t. t\<lparr>status := Transferring\<rparr>) s)"
  let ?md = "transferStart pf ?fr (checksum (heap s r))"
  have tot: "l_totalChunks ?fr = 0"
    using empty by (simp add: senderTotalChunks_def)
  have md: "?md = TransferStart transferId (name (file' (heap s r))) 0 0
                  (exportKey pf (encryptionKey (heap s r))) (checksum (heap s r))"
    using empty tot by (simp add: transferStart_def)
  have loop: "sendLoop pf w send ?fr 0 0 [?md] ?s1 = (False, [?md], ?s1)"
    using tot by (intro sendLoop_done) simp
  have "out = [?md]"
    using run unfolding sendFileChunks_registered[OF reg refl refl refl, of pf w send] loop
    by (simp split: if_splits)
  then show ?thesis by (simp only: md)
qed

text \<open>
  Claim C4, as the code has it. For every file size \<open>S\<close>, the number of chunks computed in
  \<^verbatim>\<open>sendFileChunks\<close> and the one computed in \<^verbatim>\<open>handleIncomingChunk\<close> are both the ceiling of
  \<open>S / CHUNK_SIZE\<close>, that is \<open>(S + CHUNK_SIZE - 1) div CHUNK_SIZE\<close>, the least \<open>k\<close> with
  \<open>S \<le> k * CHUNK_SIZE\<close>; they agree for files of the same size. For \<open>S = 0\<close> both are \<open>0\<close>:
  an empty file has no chunk, and the sender hands over the \<^verbatim>\<open>transfer-start\<close> message
  (announcing \<open>0\<close> chunks) and nothing else.
\<close>

theorem totalChunks_agree:
  "senderTotalChunks f = (size' f + CHUNK_SIZE - 1) div CHUNK_SIZE \<and>
   receiverTotalChunks g = (size' g + CHUNK_SIZE - 1) div CHUNK_SIZE \<and>
   (size' f = size' g \<longrightarrow> senderTotalChunks f = receiverTotalChunks g) \<and>
   size' f \<le> senderTotalChunks f * CHUNK_SIZE \<and>
   senderTotalChunks f * CHUNK_SIZE < size' f + CHUNK_SIZE \<and>
   (size' f = 0 \<longrightarrow> senderTotalChunks f = 0 \<and> receiverTotalChunks f = 0) \<and>
   (map_of (activeTransfers s) transferId = Some r \<and> size' (file' (heap s r)) = 0 \<and>
    sendFileChunks pf w transferId send s = (err, out, s') \<longrightarrow>
      out = [TransferStart transferId (name (file' (heap s r))) 0 0
               (exportKey pf (encryptionKey (heap s r))) (checksum (heap s r))])"
proof (intro conjI)
  show s: "senderTotalChunks f = (size' f + CHUNK_SIZE - 1) div CHUNK_SIZE"
    by (simp only: senderTotalChunks_def ceil_chunks)
  show r: "receiverTotalChunks g = (size' g + CHUNK_SIZE - 1) div CHUNK_SIZE"
    by (simp only: receiverTotalChunks_def ceil_chunks)
  show "size' f = size' g \<longrightarrow> senderTotalChunks f = receiverTotalChunks g"
    by (simp add: senderTotalChunks_def receiverTotalChunks_def)
  show "size' f \<le> senderTotalChunks f * CHUNK_SIZE"
    unfolding s by (rule ceil_div_bounds(1)[OF CHUNK_SIZE_pos])
  show "senderTotalChunks f * CHUNK_SIZE < size' f + CHUNK_SIZE"
    unfolding s by (rule ceil_div_bounds(2)[OF CHUNK_SIZE_pos])
  show "size' f = 0 \<longrightarrow> senderTotalChunks f = 0 \<and> receiverTotalChunks f = 0"
    by (simp add: senderTotalChunks_def receiverTotalChunks_def)
  show "map_of (activeTransfers s) transferId = Some r \<and> size' (file' (heap s r)) = 0 \<and>
    sendFileChunks pf w transferId send s = (err, out, s') \<longrightarrow>
      out = [TransferStart transferId (name (file' (heap s r))) 0 0
               (exportKey pf (encryptionKey (heap s r))) (checksum (heap s r))]"
    using empty_file_messages[of s transferId r pf w send err out s'] by blast
qed

theorem totalChunks_agree_witness:
  "size' smallFile = size' smallFile \<and> senderTotalChunks smallFile = receiverTotalChunks smallFile \<and>
   size' emptyFile = 0 \<and> senderTotalChunks emptyFile = 0 \<and> receiverTotalChunks emptyFile = 0 \<and>
   map_of (activeTransfers emptySender) ''t0'' = Some 0 \<and>
   size' (file' (heap emptySender 0)) = 0 \<and>
   fst (snd (sendFileChunks toyPlatform quietRun ''t0'' (\<lambda>m. True) emptySender)) =
     [TransferStart ''t0'' ''empty'' 0 0 ''k'' []]"
proof -
  let ?X = "sendFileChunks toyPlatform quietRun ''t0'' (\<lambda>m. True) emptySender"
  have a: "senderTotalChunks smallFile = receiverTotalChunks smallFile"
    by (rule totalChunks_agree[where f = smallFile and g = smallFile,
          THEN conjunct2, THEN conjunct2, THEN conjunct1, THEN mp, OF refl])
  have e: "size' emptyFile = 0" by (simp add: emptyFile_def)
  have b: "senderTotalChunks emptyFile = 0 \<and> receiverTotalChunks emptyFile = 0"
    by (rule totalChunks_agree[where f = emptyFile,
          THEN conjunct2, THEN conjunct2, THEN conjunct2, THEN conjunct2, THEN conjunct2,
          THEN conjunct1, THEN mp, OF e])
  have reg: "map_of (activeTransfers emptySender) ''t0'' = Some 0"
    and sz: "size' (file' (heap emptySender 0)) = 0"
    by (simp_all add: emptySender_simps emptyFile_def)
  have run: "?X = (fst ?X, fst (snd ?X), snd (snd ?X))" by simp
  have "fst (snd ?X) = [TransferStart ''t0'' (name (file' (heap emptySender 0))) 0 0
          (exportKey toyPlatform (encryptionKey (heap emptySender 0))) (checksum (heap emptySender 0))]"
    by (rule totalChunks_agree[where s = emptySender and transferId = "''t0''" and r = 0
          and pf = toyPlatform and w = quietRun and send = "\<lambda>m. True" and err = "fst ?X"
          and out = "fst (snd ?X)" and s' = "snd (snd ?X)",
          THEN conjunct2, THEN conjunct2, THEN conjunct2, THEN conjunct2, THEN conjunct2,
          THEN conjunct2, THEN mp, OF conjI[OF reg conjI[OF sz run]]])
  then have c: "fst (snd ?X) = [TransferStart ''t0'' ''empty'' 0 0 ''k'' []]"
    by (simp add: emptySender_simps emptyFile_def toyPlatform_def)
  from a e b reg sz c show ?thesis by simp
qed

theorem empty_file_has_no_chunk_counterexample:
  "size' emptyFile = 0 \<and> senderTotalChunks emptyFile = 0 \<and> receiverTotalChunks emptyFile = 0 \<and>
   senderTotalChunks emptyFile \<noteq> 1 \<and>
   fst (snd (sendFileChunks toyPlatform quietRun ''t0'' (\<lambda>m. True) emptySender)) =
     [TransferStart ''t0'' ''empty'' 0 0 ''k'' []]"
proof -
  let ?X = "sendFileChunks toyPlatform quietRun ''t0'' (\<lambda>m. True) emptySender"
  have reg: "map_of (activeTransfers emptySender) ''t0'' = Some 0"
    and sz: "size' (file' (heap emptySender 0)) = 0"
    by (simp_all add: emptySender_simps emptyFile_def)
  have run: "?X = (fst ?X, fst (snd ?X), snd (snd ?X))" by simp
  have "fst (snd ?X) = [TransferStart ''t0'' (name (file' (heap emptySender 0))) 0 0
          (exportKey toyPlatform (encryptionKey (heap emptySender 0))) (checksum (heap emptySender 0))]"
    using reg sz run by (rule empty_file_messages)
  then have "fst (snd ?X) = [TransferStart ''t0'' ''empty'' 0 0 ''k'' []]"
    by (simp add: emptySender_simps emptyFile_def toyPlatform_def)
  moreover have "senderTotalChunks emptyFile = 0" "receiverTotalChunks emptyFile = 0"
    by (simp_all add: senderTotalChunks_def receiverTotalChunks_def emptyFile_def)
  ultimately show ?thesis by (simp add: emptyFile_def)
qed


end
